theory Spec2Isabelle
  imports Main "HOL-Library.Monad_Syntax"
begin

section \<open>JavaScript values\<close>

text \<open>
  The values a context holds (\<open>Record<string, unknown>\<close>): the JSON-like fragment of
  JavaScript. Numbers are the integer-valued ones whose \<open>String\<close> form
  is their decimal expansion; strings are lists of 8-bit code units. An object is the list of
  its own enumerable properties in enumeration order.
\<close>

datatype jsvalue =
    JUndefined
  | JNull
  | JBool bool
  | JNum int
  | JStr string
  | JArr "jsvalue list"
  | JObj "(string \<times> jsvalue) list"

type_synonym jsobject = "(string \<times> jsvalue) list"

text \<open>\<open>obj[key]\<close>: a property that is not there reads as \<open>undefined\<close>. (The properties
  an object inherits from \<open>Object.prototype\<close> are not part of the model.)\<close>

definition get_prop :: "jsobject \<Rightarrow> string \<Rightarrow> jsvalue" where
  "get_prop obj k = (case map_of obj k of None \<Rightarrow> JUndefined | Some v \<Rightarrow> v)"

text \<open>\<open>{...obj, key: v}\<close>, and \<open>Map.prototype.set\<close>: an existing key keeps its place, a
  new one goes last.\<close>

fun set_prop :: "'k \<Rightarrow> 'v \<Rightarrow> ('k \<times> 'v) list \<Rightarrow> ('k \<times> 'v) list" where
  "set_prop k v [] = [(k, v)]"
| "set_prop k v (p # ps) = (if fst p = k then (k, v) # ps else p # set_prop k v ps)"

text \<open>White space as \<open>\s\<close> and \<open>String.prototype.trim\<close> see it, in the 8-bit range.\<close>

definition is_space :: "char \<Rightarrow> bool" where
  "is_space c = (c \<in> set [CHR 0x09, CHR 0x0A, CHR 0x0B, CHR 0x0C, CHR 0x0D, CHR 0x20, CHR 0xA0])"

definition trim :: "string \<Rightarrow> string" where
  "trim s = rev (dropWhile is_space (rev (dropWhile is_space s)))"

fun join :: "string \<Rightarrow> string list \<Rightarrow> string" where
  "join sep [] = []"
| "join sep [x] = x"
| "join sep (x # y # ys) = x @ sep @ join sep (y # ys)"

fun string_of_nat :: "nat \<Rightarrow> string" where
  "string_of_nat n =
     (if n < 10 then [''0123456789'' ! n]
      else string_of_nat (n div 10) @ [''0123456789'' ! (n mod 10)])"

definition string_of_int :: "int \<Rightarrow> string" where
  "string_of_int i = (if i < 0 then CHR ''-'' # string_of_nat (nat (- i)) else string_of_nat (nat i))"

text \<open>\<open>String(value)\<close>. An array joins its elements with a comma, \<open>null\<close> and
  \<open>undefined\<close> elements giving the empty string.\<close>

fun js_String :: "jsvalue \<Rightarrow> string" where
  "js_String JUndefined = ''undefined''"
| "js_String JNull = ''null''"
| "js_String (JBool b) = (if b then ''true'' else ''false'')"
| "js_String (JNum n) = string_of_int n"
| "js_String (JStr s) = s"
| "js_String (JArr xs) =
     join '','' (map (\<lambda>x. if x = JUndefined \<or> x = JNull then [] else js_String x) xs)"
| "js_String (JObj ps) = ''[object Object]''"

text \<open>The truthiness JavaScript itself uses in \<open>a || b\<close> and \<open>if (a)\<close>.\<close>

fun js_truthy :: "jsvalue \<Rightarrow> bool" where
  "js_truthy JUndefined = False"
| "js_truthy JNull = False"
| "js_truthy (JBool b) = b"
| "js_truthy (JNum n) = (n \<noteq> 0)"
| "js_truthy (JStr s) = (s \<noteq> [])"
| "js_truthy (JArr xs) = True"
| "js_truthy (JObj ps) = True"

text \<open>\<open>Array.isArray(value) ? 'array' : typeof value\<close>.\<close>

fun actual_type :: "jsvalue \<Rightarrow> string" where
  "actual_type JUndefined = ''undefined''"
| "actual_type JNull = ''object''"
| "actual_type (JBool b) = ''boolean''"
| "actual_type (JNum n) = ''number''"
| "actual_type (JStr s) = ''string''"
| "actual_type (JArr xs) = ''array''"
| "actual_type (JObj ps) = ''object''"

section \<open>Regular expressions\<close>

text \<open>
  The regular expressions of the source are sequences of literal characters and of
  repetitions of one character class, greedy or lazy, captured or not. \<open>Many g m cap p\<close>
  is a repetition of the class \<open>p\<close>, at least \<open>m\<close> times, greedy iff \<open>g\<close>, a capture group
  iff \<open>cap\<close>. \<open>rx_run\<close> is the backtracking matcher anchored at the head of the text: it
  returns the capture groups in order and the text after the match. In a repetition, \<open>n\<close>
  counts the characters taken so far and \<open>acc\<close> holds them.
\<close>

datatype rx_item = Chr char | Many bool nat bool "char \<Rightarrow> bool"

fun rx_run :: "rx_item list \<Rightarrow> nat \<Rightarrow> string \<Rightarrow> string \<Rightarrow> (string list \<times> string) option" where
  "rx_run [] n acc s = Some ([], s)"
| "rx_run (Chr c # r) n acc [] = None"
| "rx_run (Chr c # r) n acc (x # xs) = (if x = c then rx_run r 0 [] xs else None)"
| "rx_run (Many g mn cap p # r) n acc s =
     (let stop = (if mn \<le> n
                  then (case rx_run r 0 [] s of
                          None \<Rightarrow> None
                        | Some (caps, rest) \<Rightarrow> Some ((if cap then [acc] else []) @ caps, rest))
                  else None);
          more = (case s of
                    [] \<Rightarrow> None
                  | x # xs \<Rightarrow>
                      if p x then rx_run (Many g mn cap p # r) (Suc n) (acc @ [x]) xs else None)
      in if g then (case more of Some res \<Rightarrow> Some res | None \<Rightarrow> stop)
         else (case stop of Some res \<Rightarrow> Some res | None \<Rightarrow> more))"

definition rx_exec :: "rx_item list \<Rightarrow> string \<Rightarrow> (string list \<times> string) option" where
  "rx_exec r s = rx_run r 0 [] s"

definition lits :: "string \<Rightarrow> rx_item list" where
  "lits s = map Chr s"

definition not_close :: "char \<Rightarrow> bool" where
  "not_close c = (c \<noteq> CHR ''}'')"

definition not_quote :: "char \<Rightarrow> bool" where
  "not_quote c = (c \<noteq> CHR 0x22)"

definition any_char :: "char \<Rightarrow> bool" where
  "any_char c = True"

text \<open>\<^verbatim>\<open>/\{\{([^}]+)\}\}/g\<close>\<close>

definition rx_simple :: "rx_item list" where
  "rx_simple = lits ''{{'' @ [Many True 1 True not_close] @ lits ''}}''"

text \<open>\<^verbatim>\<open>/\{\{#if\s+([^}]+)\}\}(.*?)\{\{\/if\}\}/gs\<close>, and the same shape for
  \<open>#each\<close> and \<open>#switch\<close>.\<close>

definition rx_block :: "string \<Rightarrow> rx_item list" where
  "rx_block kw =
     lits ''{{#'' @ lits kw @ [Many True 1 False is_space, Many True 1 True not_close] @ lits ''}}''
     @ [Many False 0 True any_char] @ lits ''{{/'' @ lits kw @ lits ''}}''"

definition rx_if :: "rx_item list" where
  "rx_if = rx_block ''if''"

definition rx_each :: "rx_item list" where
  "rx_each = rx_block ''each''"

definition rx_switch :: "rx_item list" where
  "rx_switch = rx_block ''switch''"

text \<open>\<^verbatim>\<open>/\{\{#if_equals\s+([^}]+?)\s+"([^"]+)"\}\}(.*?)\{\{\/if_equals\}\}/gs\<close>\<close>

definition rx_if_equals :: "rx_item list" where
  "rx_if_equals =
     lits ''{{#if_equals''
     @ [Many True 1 False is_space, Many False 1 True not_close, Many True 1 False is_space,
        Chr (CHR 0x22), Many True 1 True not_quote, Chr (CHR 0x22)]
     @ lits ''}}'' @ [Many False 0 True any_char] @ lits ''{{/if_equals}}''"

text \<open>\<^verbatim>\<open>/\{\{#case\s+"([^"]+)"\}\}(.*?)\{\{\/case\}\}/gs\<close>\<close>

definition rx_case :: "rx_item list" where
  "rx_case =
     lits ''{{#case''
     @ [Many True 1 False is_space, Chr (CHR 0x22), Many True 1 True not_quote, Chr (CHR 0x22)]
     @ lits ''}}'' @ [Many False 0 True any_char] @ lits ''{{/case}}''"

text \<open>
  \<open>content.replace(regex, callback)\<close> with a global regular expression: the text is scanned
  from the left; where the expression matches, the callback's result replaces the match and
  the scan goes on behind it. The callback gets the matched text and the capture groups; it
  returns its replacement and the warnings it logged, or nothing when it does not return.
  \<open>skip\<close> counts the characters of the current match still to be passed over.
\<close>

type_synonym 'a logged = "('a \<times> string list) option"

fun replace_all :: "rx_item list \<Rightarrow> (string \<Rightarrow> string list \<Rightarrow> string logged) \<Rightarrow> nat \<Rightarrow> string
                    \<Rightarrow> string logged" where
  "replace_all r cb skip [] = Some ([], [])"
| "replace_all r cb (Suc k) (c # cs) = replace_all r cb k cs"
| "replace_all r cb 0 (c # cs) =
     (case rx_exec r (c # cs) of
        None \<Rightarrow>
          (case replace_all r cb 0 cs of
             None \<Rightarrow> None
           | Some (out, w) \<Rightarrow> Some (c # out, w))
      | Some (caps, rest) \<Rightarrow>
          (case cb (take (length (c # cs) - length rest) (c # cs)) caps of
             None \<Rightarrow> None
           | Some (rep, w1) \<Rightarrow>
               (case replace_all r cb (length cs - length rest) cs of
                  None \<Rightarrow> None
                | Some (out, w2) \<Rightarrow> Some (rep @ out, w1 @ w2))))"

section \<open>The interpolation engine (PromptConstructor)\<close>

fun formatValue :: "(jsvalue \<Rightarrow> string) \<Rightarrow> jsvalue \<Rightarrow> string" where
  "formatValue json (JStr s) = s"
| "formatValue json (JNum n) = js_String (JNum n)"
| "formatValue json (JBool b) = js_String (JBool b)"
| "formatValue json (JArr xs) = join '', '' (map (formatValue json) xs)"
| "formatValue json (JObj ps) = json (JObj ps)"
| "formatValue json v = js_String v"

fun isTruthy :: "jsvalue \<Rightarrow> bool" where
  "isTruthy JNull = False"
| "isTruthy JUndefined = False"
| "isTruthy (JBool b) = b"
| "isTruthy (JNum n) = (n \<noteq> 0)"
| "isTruthy (JStr s) = (length s > 0)"
| "isTruthy (JArr xs) = (length xs > 0)"
| "isTruthy v = True"

definition quoted :: "string \<Rightarrow> string" where
  "quoted s = [CHR 0x27] @ s @ [CHR 0x27]"

definition warn_undefined :: "string \<Rightarrow> string" where
  "warn_undefined name = ''Variable '' @ quoted name @ '' is undefined during interpolation''"

definition warn_not_array :: "string \<Rightarrow> string" where
  "warn_not_array name = ''Variable '' @ quoted name @ '' is not an array for #each loop''"

text \<open>The callback of the simple \<open>{{variable}}\<close> replacement. \<open>json\<close> is
  \<open>JSON.stringify(value, null, 2)\<close>, a parameter of the model.\<close>

definition simple_cb :: "(jsvalue \<Rightarrow> string) \<Rightarrow> jsobject \<Rightarrow> string \<Rightarrow> string list \<Rightarrow> string logged" where
  "simple_cb json variables match caps =
     (let name = trim (caps ! 0); value = get_prop variables name
      in if value = JUndefined \<or> value = JNull
         then Some (match, [warn_undefined name])
         else Some (formatValue json value, []))"

definition simple_stage :: "(jsvalue \<Rightarrow> string) \<Rightarrow> jsobject \<Rightarrow> string \<Rightarrow> string logged" where
  "simple_stage json variables content = replace_all rx_simple (simple_cb json variables) 0 content"

text \<open>The four block stages call back into the whole pipeline; \<open>self\<close> is that call.\<close>

definition processConditionals :: "(jsobject \<Rightarrow> string \<Rightarrow> string logged) \<Rightarrow> jsobject \<Rightarrow> string \<Rightarrow> string logged" where
  "processConditionals self variables content =
     replace_all rx_if
       (\<lambda>match caps.
          let variableName = trim (caps ! 0); value = get_prop variables variableName
          in if isTruthy value then self variables (caps ! 1) else Some ([], []))
       0 content"

definition itemContext :: "jsobject \<Rightarrow> jsvalue \<Rightarrow> nat \<Rightarrow> nat \<Rightarrow> jsobject" where
  "itemContext variables item index len =
     set_prop ''@last'' (JBool (Suc index = len))
       (set_prop ''@first'' (JBool (index = 0))
          (set_prop ''@index'' (JNum (int index))
             (set_prop ''this'' item variables)))"

fun each_item :: "(jsobject \<Rightarrow> string \<Rightarrow> string logged) \<Rightarrow> jsobject \<Rightarrow> string \<Rightarrow> nat \<Rightarrow> nat
                  \<Rightarrow> jsvalue list \<Rightarrow> string logged" where
  "each_item self variables template len index [] = Some ([], [])"
| "each_item self variables template len index (item # items) =
     (case self (itemContext variables item index len) template of
        None \<Rightarrow> None
      | Some (s, w1) \<Rightarrow>
          (case each_item self variables template len (Suc index) items of
             None \<Rightarrow> None
           | Some (out, w2) \<Rightarrow> Some (s @ out, w1 @ w2)))"

definition processLoops :: "(jsobject \<Rightarrow> string \<Rightarrow> string logged) \<Rightarrow> jsobject \<Rightarrow> string \<Rightarrow> string logged" where
  "processLoops self variables content =
     replace_all rx_each
       (\<lambda>match caps.
          let name = trim (caps ! 0); array = get_prop variables name
          in case array of
               JArr items \<Rightarrow> each_item self variables (caps ! 1) (length items) 0 items
             | _ \<Rightarrow> Some ([], [warn_not_array name]))
       0 content"

definition processEqualityConditionals :: "(jsobject \<Rightarrow> string \<Rightarrow> string logged) \<Rightarrow> jsobject \<Rightarrow> string \<Rightarrow> string logged" where
  "processEqualityConditionals self variables content =
     replace_all rx_if_equals
       (\<lambda>match caps.
          let name = trim (caps ! 0); value = get_prop variables name
          in if js_String value = caps ! 1 then self variables (caps ! 2) else Some ([], []))
       0 content"

text \<open>The \<open>while ((caseMatch = caseRegex.exec(switchContent)) !== null)\<close> loop: the content of
  the first case whose literal is the value.\<close>

fun find_case :: "string \<Rightarrow> nat \<Rightarrow> string \<Rightarrow> string option" where
  "find_case v skip [] = None"
| "find_case v (Suc k) (c # cs) = find_case v k cs"
| "find_case v 0 (c # cs) =
     (case rx_exec rx_case (c # cs) of
        None \<Rightarrow> find_case v 0 cs
      | Some (caps, rest) \<Rightarrow>
          if v = caps ! 0 then Some (caps ! 1)
          else find_case v (length cs - length rest) cs)"

definition switch_cb :: "(jsobject \<Rightarrow> string \<Rightarrow> string logged) \<Rightarrow> jsobject \<Rightarrow> string \<Rightarrow> string list \<Rightarrow> string logged" where
  "switch_cb self variables match caps =
     (let name = trim (caps ! 0);
          v = get_prop variables name;
          value = js_String (if js_truthy v then v else JStr [])
      in case find_case value 0 (caps ! 1) of
           Some caseContent \<Rightarrow> self variables caseContent
         | None \<Rightarrow> Some ([], []))"

definition processSwitchStatements :: "(jsobject \<Rightarrow> string \<Rightarrow> string logged) \<Rightarrow> jsobject \<Rightarrow> string \<Rightarrow> string logged" where
  "processSwitchStatements self variables content =
     replace_all rx_switch (switch_cb self variables) 0 content"

text \<open>
  \<open>interpolateVariables\<close>. The recursion through the block stages need not end (a value
  may hold a block that names it), so the first argument bounds its depth: \<open>None\<close> is the
  call that does not return within the bound.
\<close>

fun interpolateVariables :: "nat \<Rightarrow> (jsvalue \<Rightarrow> string) \<Rightarrow> jsobject \<Rightarrow> string \<Rightarrow> string logged" where
  "interpolateVariables 0 json variables content = None"
| "interpolateVariables (Suc n) json variables content =
     (case simple_stage json variables content of
        None \<Rightarrow> None
      | Some (s1, w1) \<Rightarrow>
     (case processConditionals (interpolateVariables n json) variables s1 of
        None \<Rightarrow> None
      | Some (s2, w2) \<Rightarrow>
     (case processLoops (interpolateVariables n json) variables s2 of
        None \<Rightarrow> None
      | Some (s3, w3) \<Rightarrow>
     (case processEqualityConditionals (interpolateVariables n json) variables s3 of
        None \<Rightarrow> None
      | Some (s4, w4) \<Rightarrow>
     (case processSwitchStatements (interpolateVariables n json) variables s4 of
        None \<Rightarrow> None
      | Some (s5, w5) \<Rightarrow> Some (s5, w1 @ w2 @ w3 @ w4 @ w5))))))"

section \<open>Context validation (PromptConstructor)\<close>

record IVariable =
  vname :: string
  vtype :: string
  required :: bool
  vdefault :: jsvalue
  vdescription :: "string option"

record ITemplateValidationError =
  etype :: string
  message :: string

record ITemplateValidationResult =
  valid :: bool
  errors :: "ITemplateValidationError list"
  warnings :: "ITemplateValidationError list"

definition type_mismatch :: "string \<Rightarrow> string \<Rightarrow> string \<Rightarrow> ITemplateValidationError" where
  "type_mismatch name expectedType actualType =
     \<lparr>etype = ''semantic'',
      message = ''Variable '' @ quoted name @ '' expected type '' @ quoted expectedType
                @ '' but got '' @ quoted actualType\<rparr>"

definition validateVariableType :: "string \<Rightarrow> jsvalue \<Rightarrow> string \<Rightarrow> ITemplateValidationError option" where
  "validateVariableType name value expectedType =
     (let actualType = actual_type value
      in if expectedType = ''object'' \<and> actualType = ''object'' \<and> value \<noteq> JNull
            \<and> \<not> (case value of JArr xs \<Rightarrow> True | _ \<Rightarrow> False)
         then None
         else if actualType \<noteq> expectedType
         then Some (type_mismatch name expectedType actualType)
         else None)"

definition missing_variable :: "string \<Rightarrow> ITemplateValidationError" where
  "missing_variable name =
     \<lparr>etype = ''missing_variable'', message = ''Required variable '' @ quoted name @ '' is missing''\<rparr>"

definition not_defined_warning :: "string \<Rightarrow> ITemplateValidationError" where
  "not_defined_warning name =
     \<lparr>etype = ''semantic'',
      message = ''Variable '' @ quoted name @ '' is not defined in template but provided in context''\<rparr>"

text \<open>The first loop of \<open>validateContext\<close>, over the declared variables.\<close>

fun check_variables :: "jsobject \<Rightarrow> IVariable list \<Rightarrow> ITemplateValidationError list" where
  "check_variables ctx [] = []"
| "check_variables ctx (variable # rest) =
     (let value = get_prop ctx (vname variable)
      in if required variable \<and> (value = JUndefined \<or> value = JNull)
         then missing_variable (vname variable) # check_variables ctx rest
         else if value \<noteq> JUndefined \<and> value \<noteq> JNull
         then (case validateVariableType (vname variable) value (vtype variable) of
                 Some typeError \<Rightarrow> typeError # check_variables ctx rest
               | None \<Rightarrow> check_variables ctx rest)
         else check_variables ctx rest)"

text \<open>The second loop, over \<open>Object.entries(context.variables)\<close>.\<close>

fun check_entries :: "IVariable list \<Rightarrow> jsobject \<Rightarrow> ITemplateValidationError list" where
  "check_entries vs [] = []"
| "check_entries vs ((name, value) # rest) =
     (if \<not> list_ex (\<lambda>v. vname v = name) vs \<and> value \<noteq> JUndefined
      then not_defined_warning name # check_entries vs rest
      else check_entries vs rest)"

section \<open>Templates\<close>

text \<open>
  An optional property of an object is absent, present with the value \<open>undefined\<close> (as
  the parser leaves the sections it did not find), or present with a value. The three differ
  under the spread \<open>{...parent, ...child}\<close>, which copies every own property of the child,
  the \<open>undefined\<close> ones too.
\<close>

datatype 'a optional = Absent | Undefined | Defined 'a

definition spread :: "'a optional \<Rightarrow> 'a optional \<Rightarrow> 'a optional" where
  "spread p c = (case c of Absent \<Rightarrow> p | _ \<Rightarrow> c)"

text \<open>\<open>x || d\<close> for a property whose values are arrays, objects or strings with \<open>d\<close> the
  empty string.\<close>

definition or_else :: "'a optional \<Rightarrow> 'a \<Rightarrow> 'a" where
  "or_else x d = (case x of Defined v \<Rightarrow> v | _ \<Rightarrow> d)"

record IContextLevel =
  depth :: int
  load :: "string list"
  purpose :: "string option"

record IContextLoading =
  strategy :: string
  levels :: "IContextLevel list"

record ITask =
  task_id :: string
  task_description :: string
  priority :: string
  dependencies :: "string list option"

record ITaskDefinition =
  objective :: string
  requirements :: "ITask list"
  constraints :: "string list option"

record IThinkingLevel =
  thinking_depth :: string
  focus :: "string option"
  duration :: "string option"

text \<open>
  The values of a metadata mapping (\<open>Record<string, unknown>\<close>), which the registry stores
  unchecked: a JSON-like value, or a \<open>BigInt\<close>, on which \<open>JSON.stringify\<close> throws. (A
  circular structure, the other value it throws on, is no tree and is not modelled.)
\<close>

datatype unknown = Json jsvalue | BigInt int

record IPromptTemplate =
  tid :: string
  name :: string
  description :: "string optional"
  version :: "string optional"
  author :: "string optional"
  extends :: "string optional"
  variables :: "IVariable list optional"
  contextLoading :: "IContextLoading optional"
  taskDefinition :: "ITaskDefinition optional"
  thinkingLevel :: "IThinkingLevel optional"
  content :: string
  metadata :: "(string \<times> unknown) list optional"

text \<open>\<open>validateContext\<close>, given the template and \<open>context.variables\<close>. It never fails: the
  result always comes as data.\<close>

definition validateContext :: "IPromptTemplate \<Rightarrow> jsobject \<Rightarrow> ITemplateValidationResult" where
  "validateContext template ctx =
     (case variables template of
        Defined vs \<Rightarrow>
          (let errs = check_variables ctx vs; warns = check_entries vs ctx
           in \<lparr>valid = (length errs = 0), errors = errs, warnings = warns\<rparr>)
      | _ \<Rightarrow> \<lparr>valid = True, errors = [], warnings = []\<rparr>)"

text \<open>\<open>{...a, ...b}\<close> on two mappings.\<close>

definition spread_object :: "(string \<times> 'v) list \<Rightarrow> (string \<times> 'v) list \<Rightarrow> (string \<times> 'v) list" where
  "spread_object a b = fold (\<lambda>(k, v) acc. set_prop k v acc) b a"

definition mergeTemplates :: "IPromptTemplate \<Rightarrow> IPromptTemplate \<Rightarrow> IPromptTemplate" where
  "mergeTemplates parent child =
     (let merged =
            \<lparr>tid = tid child,
             name = name child,
             description = spread (description parent) (description child),
             version = spread (version parent) (version child),
             author = spread (author parent) (author child),
             extends = spread (extends parent) (extends child),
             variables = Defined (or_else (variables parent) [] @ or_else (variables child) []),
             contextLoading = spread (contextLoading parent) (contextLoading child),
             taskDefinition = spread (taskDefinition parent) (taskDefinition child),
             thinkingLevel = spread (thinkingLevel parent) (thinkingLevel child),
             content = content child,
             metadata = Defined (spread_object (or_else (metadata parent) []) (or_else (metadata child) []))\<rparr>;
          merged = (if content child \<noteq> [] then merged\<lparr>content := content child\<rparr> else merged);
          merged = (case contextLoading child of
                      Defined c \<Rightarrow> merged\<lparr>contextLoading := contextLoading child\<rparr>
                    | _ \<Rightarrow> merged);
          merged = (case taskDefinition child of
                      Defined t \<Rightarrow> merged\<lparr>taskDefinition := taskDefinition child\<rparr>
                    | _ \<Rightarrow> merged);
          merged = (case thinkingLevel child of
                      Defined t \<Rightarrow> merged\<lparr>thinkingLevel := thinkingLevel child\<rparr>
                    | _ \<Rightarrow> merged)
      in merged\<lparr>extends := Absent\<rparr>)"

text \<open>
  What \<open>parseXmlContent\<close> does with the three optional sections: it assigns the result of
  the section's parser, \<open>undefined\<close> when the document has no such section, so the parsed
  template always owns the property.
\<close>

definition parsed_section :: "'a option \<Rightarrow> 'a optional" where
  "parsed_section r = (case r of None \<Rightarrow> Undefined | Some v \<Rightarrow> Defined v)"

section \<open>The template registry\<close>

datatype error =
    TemplateIdRequired
  | TemplateNameRequired
  | TemplateContentRequired
  | CircularInheritance "string list" string
  | InheritFromItself string
  | ParentNotFound string
  | TemplateNotFound string
  | HasDependents string "string list"
  | ResolveParentFailed string string error
  | SerializeFailed

fun error_message :: "error \<Rightarrow> string" where
  "error_message TemplateIdRequired = ''Template ID is required''"
| "error_message TemplateNameRequired = ''Template name is required''"
| "error_message TemplateContentRequired = ''Template content is required''"
| "error_message (CircularInheritance visited currentId) =
     ''Circular inheritance detected: '' @ join '' -> '' visited @ '' -> '' @ currentId"
| "error_message (InheritFromItself templateId) =
     ''Template cannot inherit from itself: '' @ templateId"
| "error_message (ParentNotFound currentId) = ''Parent template not found: '' @ currentId"
| "error_message (TemplateNotFound i) = ''Template not found: '' @ i"
| "error_message (HasDependents i dependents) =
     ''Cannot remove template '' @ i @ '': other templates inherit from it: ''
     @ join '', '' dependents"
| "error_message (ResolveParentFailed parent i e) =
     ''Failed to resolve parent template '' @ quoted parent @ '' for template '' @ quoted i
     @ '': '' @ error_message e"
| "error_message SerializeFailed = ''Do not know how to serialize a BigInt''"

text \<open>The two \<open>Map\<close>s of the registry, in insertion order.\<close>

record registry =
  templates :: "(string \<times> IPromptTemplate) list"
  inheritanceCache :: "(string \<times> IPromptTemplate) list"

definition empty_registry :: registry where
  "empty_registry = \<lparr>templates = [], inheritanceCache = []\<rparr>"

definition map_delete :: "'k \<Rightarrow> ('k \<times> 'v) list \<Rightarrow> ('k \<times> 'v) list" where
  "map_delete k m = filter (\<lambda>p. fst p \<noteq> k) m"

definition findDependentTemplates :: "(string \<times> IPromptTemplate) list \<Rightarrow> string \<Rightarrow> string list" where
  "findDependentTemplates ts parentId =
     map fst (filter (\<lambda>(i, template). extends template = Defined parentId) ts)"

text \<open>
  \<open>clearInheritanceCache\<close> calls itself on every dependent; on a stored cycle it does not
  return. The list version is the \<open>for\<close> loop over the dependents.
\<close>

partial_function (option) clearInheritanceCaches ::
  "(string \<times> IPromptTemplate) list \<Rightarrow> string list \<Rightarrow> (string \<times> IPromptTemplate) list
   \<Rightarrow> (string \<times> IPromptTemplate) list option" where
  "clearInheritanceCaches ts ids cache =
     (case ids of
        [] \<Rightarrow> Some cache
      | templateId # rest \<Rightarrow>
          Option.bind
            (clearInheritanceCaches ts (findDependentTemplates ts templateId) (map_delete templateId cache))
            (\<lambda>cache'. clearInheritanceCaches ts rest cache'))"

definition clearInheritanceCache ::
  "(string \<times> IPromptTemplate) list \<Rightarrow> string \<Rightarrow> (string \<times> IPromptTemplate) list
   \<Rightarrow> (string \<times> IPromptTemplate) list option" where
  "clearInheritanceCache ts templateId cache = clearInheritanceCaches ts [templateId] cache"

text \<open>The \<open>while (currentId)\<close> loop of \<open>checkCircularInheritance\<close>; \<open>visited\<close> is the set in
  insertion order.\<close>

function checkCircularLoop ::
  "(string \<times> IPromptTemplate) list \<Rightarrow> string \<Rightarrow> string list \<Rightarrow> string \<Rightarrow> error + unit" where
  "checkCircularLoop ts templateId visited currentId =
     (if currentId = [] then Inr ()
      else if currentId \<in> set visited then Inl (CircularInheritance visited currentId)
      else if currentId = templateId then Inl (InheritFromItself templateId)
      else (case map_of ts currentId of
              None \<Rightarrow> Inl (ParentNotFound currentId)
            | Some template \<Rightarrow>
                checkCircularLoop ts templateId (visited @ [currentId]) (or_else (extends template) [])))"
  by pat_completeness auto
termination
proof (relation "measure (\<lambda>(ts, templateId, visited, currentId). card (fst ` set ts - set visited))")
  show "wf (measure (\<lambda>(ts, templateId, visited, currentId). card (fst ` set ts - set visited)))"
    by simp
next
  fix ts :: "(string \<times> IPromptTemplate) list" and templateId :: string
    and visited :: "string list" and currentId :: string and x2 :: IPromptTemplate
  assume nv: "currentId \<notin> set visited" and found: "map_of ts currentId = Some x2"
  have "currentId \<in> fst ` set ts"
    using found by (metis map_of_SomeD fst_conv image_eqI)
  then have "fst ` set ts - set (visited @ [currentId]) \<subset> fst ` set ts - set visited"
    using nv by auto
  then have "card (fst ` set ts - set (visited @ [currentId])) < card (fst ` set ts - set visited)"
    by (intro psubset_card_mono) auto
  then show "((ts, templateId, visited @ [currentId], or_else (extends x2) []),
              (ts, templateId, visited, currentId))
             \<in> measure (\<lambda>(ts, templateId, visited, currentId). card (fst ` set ts - set visited))"
    by simp
qed

definition checkCircularInheritance ::
  "(string \<times> IPromptTemplate) list \<Rightarrow> string \<Rightarrow> string \<Rightarrow> error + unit" where
  "checkCircularInheritance ts templateId parentId = checkCircularLoop ts templateId [] parentId"

text \<open>Every operation returns its result and the registry after it; \<open>None\<close> is the call
  that does not return.\<close>

definition register :: "registry \<Rightarrow> IPromptTemplate \<Rightarrow> ((error + unit) \<times> registry) option" where
  "register st template =
     (if tid template = [] then Some (Inl TemplateIdRequired, st)
      else if name template = [] then Some (Inl TemplateNameRequired, st)
      else if content template = [] then Some (Inl TemplateContentRequired, st)
      else
        (case (if or_else (extends template) [] \<noteq> []
               then checkCircularInheritance (templates st) (tid template) (or_else (extends template) [])
               else Inr ()) of
           Inl e \<Rightarrow> Some (Inl e, st)
         | Inr u \<Rightarrow>
             (let ts = set_prop (tid template) template (templates st)
              in Option.bind (clearInheritanceCache ts (tid template) (inheritanceCache st))
                   (\<lambda>cache. Some (Inr (), \<lparr>templates = ts, inheritanceCache = cache\<rparr>)))))"

definition get :: "registry \<Rightarrow> string \<Rightarrow> error + IPromptTemplate" where
  "get st i = (case map_of (templates st) i of
                 None \<Rightarrow> Inl (TemplateNotFound i)
               | Some template \<Rightarrow> Inr template)"

definition list_templates :: "registry \<Rightarrow> error + IPromptTemplate list" where
  "list_templates st = Inr (map snd (templates st))"

text \<open>\<open>String.prototype.toLowerCase\<close> and \<open>includes\<close>, on 8-bit code units.\<close>

definition lower_char :: "char \<Rightarrow> char" where
  "lower_char c =
     (let n = of_char c :: nat
      in if (65 \<le> n \<and> n \<le> 90) \<or> (192 \<le> n \<and> n \<le> 222 \<and> n \<noteq> 215) then char_of (n + 32) else c)"

definition toLowerCase :: "string \<Rightarrow> string" where
  "toLowerCase s = map lower_char s"

fun str_includes :: "string \<Rightarrow> string \<Rightarrow> bool" where
  "str_includes [] q = (q = [])"
| "str_includes (c # cs) q = (take (length q) (c # cs) = q \<or> str_includes cs q)"

text \<open>
  \<open>JSON.stringify(template.metadata || {})\<close>: it throws on a \<open>BigInt\<close> value, and gives
  the text \<open>json\<close> of the object otherwise; \<open>json\<close>, the rendering of a JSON-like value, is
  a parameter of the model. \<open>None\<close> is the throw.
\<close>

fun serialise_entries :: "(string \<times> unknown) list \<Rightarrow> jsobject option" where
  "serialise_entries [] = Some []"
| "serialise_entries ((k, Json v) # rest) =
     (case serialise_entries rest of None \<Rightarrow> None | Some obj \<Rightarrow> Some ((k, v) # obj))"
| "serialise_entries ((k, BigInt n) # rest) = None"

definition stringify :: "(jsvalue \<Rightarrow> string) \<Rightarrow> (string \<times> unknown) list \<Rightarrow> string option" where
  "stringify json md =
     (case serialise_entries md of None \<Rightarrow> None | Some obj \<Rightarrow> Some (json (JObj obj)))"

definition searchableText :: "(jsvalue \<Rightarrow> string) \<Rightarrow> IPromptTemplate \<Rightarrow> string option" where
  "searchableText json template =
     (case stringify json (or_else (metadata template) []) of
        None \<Rightarrow> None
      | Some md \<Rightarrow>
          Some (toLowerCase (join '' '' [name template, or_else (description template) [],
                                         tid template, md])))"

text \<open>The loop of \<open>search\<close> over the stored templates. A throw of \<open>JSON.stringify\<close> leaves
  the loop and is caught: the call returns the failure.\<close>

fun search_loop :: "(jsvalue \<Rightarrow> string) \<Rightarrow> string \<Rightarrow> IPromptTemplate list
                    \<Rightarrow> IPromptTemplate list \<Rightarrow> error + IPromptTemplate list" where
  "search_loop json lowerQuery matches [] = Inr matches"
| "search_loop json lowerQuery matches (template # rest) =
     (case searchableText json template of
        None \<Rightarrow> Inl SerializeFailed
      | Some searchable \<Rightarrow>
          if str_includes searchable lowerQuery
          then search_loop json lowerQuery (matches @ [template]) rest
          else search_loop json lowerQuery matches rest)"

definition search :: "(jsvalue \<Rightarrow> string) \<Rightarrow> registry \<Rightarrow> string \<Rightarrow> error + IPromptTemplate list" where
  "search json st query =
     (let lowerQuery = toLowerCase query
      in search_loop json lowerQuery [] (map snd (templates st)))"

definition remove :: "registry \<Rightarrow> string \<Rightarrow> ((error + unit) \<times> registry) option" where
  "remove st i =
     (if map_of (templates st) i = None then Some (Inl (TemplateNotFound i), st)
      else
        (let dependents = findDependentTemplates (templates st) i
         in if length dependents > 0 then Some (Inl (HasDependents i dependents), st)
            else
              (let ts = map_delete i (templates st)
               in Option.bind (clearInheritanceCache ts i (inheritanceCache st))
                    (\<lambda>cache. Some (Inr (), \<lparr>templates = ts, inheritanceCache = cache\<rparr>)))))"

definition exists_template :: "registry \<Rightarrow> string \<Rightarrow> bool" where
  "exists_template st i = (map_of (templates st) i \<noteq> None)"

text \<open>\<open>getResolved\<close> follows the \<open>extends\<close> chain by recursion; on a stored cycle it does not
  return.\<close>

partial_function (option) getResolved ::
  "registry \<Rightarrow> string \<Rightarrow> ((error + IPromptTemplate) \<times> registry) option" where
  "getResolved st i =
     (case map_of (inheritanceCache st) i of
        Some cached \<Rightarrow> Some (Inr cached, st)
      | None \<Rightarrow>
          (case get st i of
             Inl e \<Rightarrow> Some (Inl e, st)
           | Inr template \<Rightarrow>
               if or_else (extends template) [] \<noteq> []
               then Option.bind (getResolved st (or_else (extends template) []))
                      (\<lambda>(parentResult, st').
                         case parentResult of
                           Inl e \<Rightarrow>
                             Some (Inl (ResolveParentFailed (or_else (extends template) []) i e), st')
                         | Inr parent \<Rightarrow>
                             (let merged = mergeTemplates parent template
                              in Some (Inr merged,
                                       st'\<lparr>inheritanceCache := set_prop i merged (inheritanceCache st')\<rparr>)))
               else Some (Inr template,
                          st\<lparr>inheritanceCache := set_prop i template (inheritanceCache st)\<rparr>)))"

section \<open>Auxiliary notions for the statements\<close>

text \<open>Every regular expression of the engine begins with an opening brace, and every block
  expression of \<open>interpolateVariables\<close> with \<open>{{#\<close>.\<close>

definition starts_with_open :: "rx_item list \<Rightarrow> bool" where
  "starts_with_open r = (take 1 r = lits ''{'')"

definition starts_with_directive :: "rx_item list \<Rightarrow> bool" where
  "starts_with_directive r = (take 3 r = lits ''{{#'')"

text \<open>Two parsed templates, a parent with a context-loading section and a thinking level and
  a child that extends it and has neither; and the registry that holds both.\<close>

definition demo_context_loading :: IContextLoading where
  "demo_context_loading =
     \<lparr>strategy = ''progressive'', levels = [\<lparr>depth = 1, load = [''README.md''], purpose = None\<rparr>]\<rparr>"

definition demo_thinking_level :: IThinkingLevel where
  "demo_thinking_level = \<lparr>thinking_depth = ''analysis'', focus = None, duration = None\<rparr>"

definition demo_parent :: IPromptTemplate where
  "demo_parent =
     \<lparr>tid = ''base'', name = ''Base'', description = Absent, version = Defined ''1.0.0'',
      author = Undefined, extends = Absent, variables = Defined [],
      contextLoading = parsed_section (Some demo_context_loading),
      taskDefinition = parsed_section None,
      thinkingLevel = parsed_section (Some demo_thinking_level),
      content = ''Base'', metadata = Undefined\<rparr>"

definition demo_child :: IPromptTemplate where
  "demo_child =
     \<lparr>tid = ''child'', name = ''Child'', description = Absent, version = Defined ''1.0.0'',
      author = Undefined, extends = Defined ''base'', variables = Defined [],
      contextLoading = parsed_section None,
      taskDefinition = parsed_section None,
      thinkingLevel = parsed_section None,
      content = ''Child'', metadata = Undefined\<rparr>"

definition demo_registry :: registry where
  "demo_registry =
     \<lparr>templates = [(''base'', demo_parent), (''child'', demo_child)], inheritanceCache = []\<rparr>"

definition demo_resolved :: registry where
  "demo_resolved =
     demo_registry\<lparr>inheritanceCache :=
       [(''base'', demo_parent), (''child'', mergeTemplates demo_parent demo_child)]\<rparr>"

text \<open>Two templates that extend each other.\<close>

definition demo_a :: IPromptTemplate where
  "demo_a = demo_child\<lparr>tid := ''circular-1'', name := ''Circular 1'', content := ''Content 1'',
                         extends := Defined ''circular-2''\<rparr>"

definition demo_b :: IPromptTemplate where
  "demo_b = demo_child\<lparr>tid := ''circular-2'', name := ''Circular 2'', content := ''Content 2'',
                         extends := Defined ''circular-1''\<rparr>"

text \<open>A stand-in for \<open>JSON.stringify\<close> in examples that format no object.\<close>

definition no_json :: "jsvalue \<Rightarrow> string" where
  "no_json v = []"

text \<open>Two declared variables, a required number and an optional object, and a template for
  each.\<close>

definition demo_age :: IVariable where
  "demo_age = \<lparr>vname = ''age'', vtype = ''number'', required = True, vdefault = JUndefined,
                vdescription = None\<rparr>"

definition demo_config :: IVariable where
  "demo_config = \<lparr>vname = ''config'', vtype = ''object'', required = False, vdefault = JUndefined,
                   vdescription = None\<rparr>"

definition demo_age_template :: IPromptTemplate where
  "demo_age_template = demo_parent\<lparr>content := ''Age: {{age}}'', variables := Defined [demo_age]\<rparr>"

definition demo_config_template :: IPromptTemplate where
  "demo_config_template = demo_parent\<lparr>content := ''{{config}}'', variables := Defined [demo_config]\<rparr>"

text \<open>
  A body with only simple references: pieces of text without braces and references
  \<open>{{name}}\<close> with a non-empty name. \<open>provided\<close> says that the context has a value for a
  reference, not \<open>null\<close>, whose formatted text holds no brace; \<open>filled\<close> is the piece after
  substitution.
\<close>

datatype segment = Text string | Ref string

fun render_segment :: "segment \<Rightarrow> string" where
  "render_segment (Text t) = t"
| "render_segment (Ref n) = ''{{'' @ n @ ''}}''"

definition render :: "segment list \<Rightarrow> string" where
  "render segs = concat (map render_segment segs)"

definition brace_free :: "string \<Rightarrow> bool" where
  "brace_free s = (CHR ''{'' \<notin> set s \<and> CHR ''}'' \<notin> set s)"

fun simple_segment :: "segment \<Rightarrow> bool" where
  "simple_segment (Text t) = brace_free t"
| "simple_segment (Ref n) = (n \<noteq> [] \<and> CHR ''}'' \<notin> set n)"

fun provided :: "(jsvalue \<Rightarrow> string) \<Rightarrow> jsobject \<Rightarrow> segment \<Rightarrow> bool" where
  "provided json vars (Text t) = True"
| "provided json vars (Ref n) =
     (get_prop vars (trim n) \<noteq> JUndefined \<and> get_prop vars (trim n) \<noteq> JNull
      \<and> brace_free (formatValue json (get_prop vars (trim n))))"

fun filled :: "(jsvalue \<Rightarrow> string) \<Rightarrow> jsobject \<Rightarrow> segment \<Rightarrow> string" where
  "filled json vars (Text t) = t"
| "filled json vars (Ref n) = formatValue json (get_prop vars (trim n))"

text \<open>
  A body with no block directive: text without an opening brace, and simple references whose
  names hold no brace and do not begin with \<open>#\<close>. A reference is unresolved when the
  context value of its trimmed name is \<open>undefined\<close> or \<open>null\<close>; it is settled when it is
  unresolved or the formatted value holds no opening brace. \<open>kept\<close> is what stands for a
  segment in the output when unresolved references stay as they are written and the others
  are replaced by their formatted values, and \<open>warned\<close> the warnings owed to it.
\<close>

definition unresolved :: "jsobject \<Rightarrow> string \<Rightarrow> bool" where
  "unresolved vars n = (get_prop vars (trim n) = JUndefined \<or> get_prop vars (trim n) = JNull)"

fun plain_segment :: "segment \<Rightarrow> bool" where
  "plain_segment (Text t) = (CHR ''{'' \<notin> set t)"
| "plain_segment (Ref n) = (n \<noteq> [] \<and> brace_free n \<and> hd n \<noteq> CHR ''#'')"

fun settled :: "(jsvalue \<Rightarrow> string) \<Rightarrow> jsobject \<Rightarrow> segment \<Rightarrow> bool" where
  "settled json vars (Text t) = True"
| "settled json vars (Ref n) =
     (if unresolved vars n then True
      else CHR ''{'' \<notin> set (formatValue json (get_prop vars (trim n))))"

fun kept :: "(jsvalue \<Rightarrow> string) \<Rightarrow> jsobject \<Rightarrow> segment \<Rightarrow> string" where
  "kept json vars (Text t) = t"
| "kept json vars (Ref n) =
     (if unresolved vars n then ''{{'' @ n @ ''}}''
      else formatValue json (get_prop vars (trim n)))"

fun warned :: "jsobject \<Rightarrow> segment \<Rightarrow> string list" where
  "warned vars (Text t) = []"
| "warned vars (Ref n) = (if unresolved vars n then [warn_undefined (trim n)] else [])"

text \<open>
  The order of stages as the specification words it, for comparison with
  \<open>interpolateVariables\<close>: conditionals, loops, equality conditionals, switch, and the simple
  substitution last. The stages themselves are those of the source.
\<close>

fun interpolate_claimed_order :: "nat \<Rightarrow> (jsvalue \<Rightarrow> string) \<Rightarrow> jsobject \<Rightarrow> string \<Rightarrow> string logged" where
  "interpolate_claimed_order 0 json vars body = None"
| "interpolate_claimed_order (Suc n) json vars body =
     (case processConditionals (interpolate_claimed_order n json) vars body of
        None \<Rightarrow> None
      | Some (s1, w1) \<Rightarrow>
     (case processLoops (interpolate_claimed_order n json) vars s1 of
        None \<Rightarrow> None
      | Some (s2, w2) \<Rightarrow>
     (case processEqualityConditionals (interpolate_claimed_order n json) vars s2 of
        None \<Rightarrow> None
      | Some (s3, w3) \<Rightarrow>
     (case processSwitchStatements (interpolate_claimed_order n json) vars s3 of
        None \<Rightarrow> None
      | Some (s4, w4) \<Rightarrow>
     (case simple_stage json vars s4 of
        None \<Rightarrow> None
      | Some (s5, w5) \<Rightarrow> Some (s5, w1 @ w2 @ w3 @ w4 @ w5))))))"

text \<open>A context in which the loop variable \<open>this\<close> also has an outer value, and a switch on
  the number zero with a case for the text \<open>0\<close>.\<close>

definition demo_loop_vars :: jsobject where
  "demo_loop_vars = [(''this'', JStr ''X''), (''items'', JArr [JStr ''a'', JStr ''b''])]"

definition demo_switch_inner :: string where
  "demo_switch_inner = ''{{#case '' @ [CHR 0x22] @ ''0'' @ [CHR 0x22] @ ''}}zero{{/case}}''"

definition demo_switch_body :: string where
  "demo_switch_body = ''{{#switch n}}'' @ demo_switch_inner @ ''{{/switch}}''"

text \<open>
  The inheritance chain of a stored template ends: following \<open>extends\<close> from \<open>i\<close> leads,
  through stored templates, to one without a parent. \<open>resolves_avoiding\<close> is the same with
  the chain never passing the identifier \<open>x\<close>. \<open>chains_end\<close> is the invariant of the
  \<open>templates\<close> map: its keys are distinct and not empty, and every chain ends. \<open>reachable\<close> are the
  registries that the operations build from the empty one.
\<close>

inductive resolves :: "(string \<times> IPromptTemplate) list \<Rightarrow> string \<Rightarrow> bool" for ts where
  root: "map_of ts i = Some t \<Longrightarrow> or_else (extends t) [] = [] \<Longrightarrow> resolves ts i"
| step: "map_of ts i = Some t \<Longrightarrow> or_else (extends t) [] \<noteq> [] \<Longrightarrow>
         resolves ts (or_else (extends t) []) \<Longrightarrow> resolves ts i"

inductive resolves_avoiding :: "(string \<times> IPromptTemplate) list \<Rightarrow> string \<Rightarrow> string \<Rightarrow> bool" for ts x where
  root: "i \<noteq> x \<Longrightarrow> map_of ts i = Some t \<Longrightarrow> or_else (extends t) [] = [] \<Longrightarrow> resolves_avoiding ts x i"
| step: "i \<noteq> x \<Longrightarrow> map_of ts i = Some t \<Longrightarrow> or_else (extends t) [] \<noteq> [] \<Longrightarrow>
         resolves_avoiding ts x (or_else (extends t) []) \<Longrightarrow> resolves_avoiding ts x i"

definition chains_end :: "(string \<times> IPromptTemplate) list \<Rightarrow> bool" where
  "chains_end ts =
     (distinct (map fst ts) \<and> [] \<notin> set (map fst ts)
      \<and> (\<forall>i t. map_of ts i = Some t \<longrightarrow> resolves ts i))"

text \<open>\<open>(d, x) \<in> depends ts\<close>: the stored template \<open>d\<close> extends \<open>x\<close>.\<close>

definition depends :: "(string \<times> IPromptTemplate) list \<Rightarrow> (string \<times> string) set" where
  "depends ts = {(d, x). d \<in> set (findDependentTemplates ts x)}"

inductive reachable :: "registry \<Rightarrow> bool" where
  initial: "reachable empty_registry"
| registered: "reachable st \<Longrightarrow> register st t = Some (r, st') \<Longrightarrow> reachable st'"
| removed: "reachable st \<Longrightarrow> remove st i = Some (r, st') \<Longrightarrow> reachable st'"
| resolved: "reachable st \<Longrightarrow> getResolved st i = Some (rt, st') \<Longrightarrow> reachable st'"

text \<open>A template whose metadata holds a \<open>BigInt\<close>, and the registry after registering
  it.\<close>

definition demo_big :: IPromptTemplate where
  "demo_big = demo_parent\<lparr>tid := ''big'', metadata := Defined [(''size'', BigInt 10)]\<rparr>"

definition demo_big_registry :: registry where
  "demo_big_registry = \<lparr>templates = [(''big'', demo_big)], inheritanceCache = []\<rparr>"

text \<open>Every stored template has metadata that \<open>JSON.stringify\<close> accepts.\<close>

definition metadata_serialisable :: "registry \<Rightarrow> bool" where
  "metadata_serialisable st =
     list_all (\<lambda>template. serialise_entries (or_else (metadata template) []) \<noteq> None)
       (map snd (templates st))"

section \<open>Facts about the matcher and the replacement loop\<close>

lemma starts_with_open_regexes:
  "starts_with_open rx_simple" "starts_with_open rx_if" "starts_with_open rx_each"
  "starts_with_open rx_switch" "starts_with_open rx_if_equals" "starts_with_open rx_case"
  by (simp_all add: starts_with_open_def rx_simple_def rx_if_def rx_each_def rx_switch_def
      rx_block_def rx_if_equals_def rx_case_def lits_def)

lemma rx_exec_not_open:
  assumes "starts_with_open r" and "x \<noteq> CHR ''{''"
  shows "rx_exec r (x # xs) = None"
proof -
  have "r = Chr CHR ''{'' # drop 1 r"
    using assms(1) append_take_drop_id [of 1 r] by (simp add: starts_with_open_def lits_def)
  then obtain r' where "r = Chr CHR ''{'' # r'" ..
  then show ?thesis using assms(2) by (simp add: rx_exec_def)
qed

text \<open>A text without an opening brace passes through every stage unchanged.\<close>

lemma replace_all_no_open:
  "starts_with_open r \<Longrightarrow> CHR ''{'' \<notin> set s \<Longrightarrow> replace_all r cb 0 s = Some (s, [])"
  by (induction s) (auto simp: rx_exec_not_open)

lemma replace_all_prefix:
  "starts_with_open r \<Longrightarrow> CHR ''{'' \<notin> set pre \<Longrightarrow>
   replace_all r cb 0 (pre @ s) =
     (case replace_all r cb 0 s of None \<Rightarrow> None | Some (out, w) \<Rightarrow> Some (pre @ out, w))"
  by (induction pre) (auto simp: rx_exec_not_open split: option.splits)

lemma replace_all_skip:
  "k \<le> length s \<Longrightarrow> replace_all r cb k s = replace_all r cb 0 (drop k s)"
proof (induction s arbitrary: k)
  case Nil
  then show ?case by simp
next
  case (Cons c cs)
  then show ?case by (cases k) auto
qed

text \<open>At a match, the callback's result is followed by the replacement of the rest.\<close>

lemma replace_all_match:
  assumes "rx_exec r (m @ rest) = Some (caps, rest)" and "m \<noteq> []"
  shows "replace_all r cb 0 (m @ rest) =
     (case cb m caps of
        None \<Rightarrow> None
      | Some (rep, w1) \<Rightarrow>
          (case replace_all r cb 0 rest of
             None \<Rightarrow> None
           | Some (out, w2) \<Rightarrow> Some (rep @ out, w1 @ w2)))"
proof -
  obtain c cs where m: "m = c # cs" using assms(2) by (cases m) auto
  have ex: "rx_exec r (c # (cs @ rest)) = Some (caps, rest)"
    using assms(1) m by simp
  have sk: "replace_all r cb (length (cs @ rest) - length rest) (cs @ rest) = replace_all r cb 0 rest"
    using replace_all_skip [of "length cs" "cs @ rest" r cb] by simp
  have tk: "take (length (c # (cs @ rest)) - length rest) (c # (cs @ rest)) = c # cs"
    by simp
  have "replace_all r cb 0 (c # (cs @ rest)) =
     (case cb (c # cs) caps of
        None \<Rightarrow> None
      | Some (rep, w1) \<Rightarrow>
          (case replace_all r cb 0 rest of
             None \<Rightarrow> None
           | Some (out, w2) \<Rightarrow> Some (rep @ out, w1 @ w2)))"
    apply (subst replace_all.simps(3))
    apply (simp only: ex sk tk option.case prod.case)
    done
  then show ?thesis by (simp add: m)
qed

text \<open>A greedy repetition takes the whole run of its class when the rest of the expression
  matches behind the run.\<close>

lemma rx_run_greedy:
  assumes "\<forall>x \<in> set xs. p x" and "s = [] \<or> \<not> p (hd s)"
    and "mn \<le> n + length xs" and "rx_run r 0 [] s = Some (caps, rest)"
  shows "rx_run (Many True mn cap p # r) n acc (xs @ s)
         = Some ((if cap then [acc @ xs] else []) @ caps, rest)"
  using assms
proof (induction xs arbitrary: n acc)
  case Nil
  then show ?case by (cases s) auto
next
  case (Cons x xs)
  have "rx_run (Many True mn cap p # r) (Suc n) (acc @ [x]) (xs @ s)
         = Some ((if cap then [(acc @ [x]) @ xs] else []) @ caps, rest)"
    using Cons.prems by (intro Cons.IH) auto
  then show ?case using Cons.prems(1) by simp
qed

lemma rx_simple_reference:
  assumes "n \<noteq> []" and "CHR ''}'' \<notin> set n"
  shows "rx_exec rx_simple (''{{'' @ n @ ''}}'' @ rest) = Some ([n], rest)"
proof -
  have "rx_run (Many True 1 True not_close # lits ''}}'') 0 [] (n @ (''}}'' @ rest))
        = Some ((if True then [[] @ n] else []) @ [], rest)"
    using assms
    by (intro rx_run_greedy) (auto simp: not_close_def lits_def Suc_le_eq)
  then show ?thesis
    by (simp add: rx_exec_def rx_simple_def lits_def)
qed




text \<open>Occurrences of a text in another. A text no proper end of which is a beginning of it
  occurs in \<open>u @ t @ post\<close> first at the end of \<open>u\<close> when \<open>u\<close> does not hold it.\<close>

lemma str_includes_empty: "str_includes s []"
  by (cases s) simp_all


lemma str_includes_middle: "str_includes (a @ q @ b) q"
proof (induction a)
  case Nil
  show ?case
  proof (cases "q @ b")
    case Nil
    then show ?thesis by simp
  next
    case (Cons x xs)
    have "take (length q) (q @ b) = q" by simp
    then have "str_includes (x # xs) q" unfolding Cons by simp
    then show ?thesis using Cons by simp
  qed
next
  case (Cons x a)
  then show ?case by simp
qed




text \<open>The block expressions begin with \<open>{{#\<close>.\<close>

lemma starts_with_directiveD:
  assumes "starts_with_directive r"
  obtains r' where "r = Chr CHR ''{'' # Chr CHR ''{'' # Chr CHR ''#'' # r'"
proof -
  have "r = Chr CHR ''{'' # Chr CHR ''{'' # Chr CHR ''#'' # drop 3 r"
    using assms append_take_drop_id [of 3 r] by (simp add: starts_with_directive_def lits_def)
  then show ?thesis using that by blast
qed

lemma starts_with_directive_regexes:
  "starts_with_directive rx_if" "starts_with_directive rx_each"
  "starts_with_directive rx_switch" "starts_with_directive rx_if_equals"
  by (simp_all add: starts_with_directive_def rx_if_def rx_each_def rx_switch_def
      rx_block_def rx_if_equals_def lits_def)

lemma starts_with_directive_open: "starts_with_directive r \<Longrightarrow> starts_with_open r"
  by (erule starts_with_directiveD) (simp add: starts_with_open_def lits_def)

text \<open>The replacement loop returns when its callback does.\<close>

lemma replace_all_returns:
  assumes "\<And>m caps. cb m caps \<noteq> None"
  shows "replace_all r cb k s \<noteq> None"
proof (induction s arbitrary: k)
  case Nil
  then show ?case by simp
next
  case (Cons c cs)
  show ?case
  proof (cases k)
    case (Suc j)
    then show ?thesis using Cons by simp
  next
    case 0
    show ?thesis
    proof (cases "rx_exec r (c # cs)")
      case None
      then show ?thesis using 0 Cons [of 0] by (auto split: option.splits)
    next
      case (Some res)
      obtain caps rest where res: "res = (caps, rest)" by (cases res)
      obtain rep w1 where cb: "cb (take (length (c # cs) - length rest) (c # cs)) caps = Some (rep, w1)"
        using assms by (metis option.exhaust surj_pair)
      obtain out w2 where "replace_all r cb (length cs - length rest) cs = Some (out, w2)"
        using Cons by (metis option.exhaust surj_pair)
      then show ?thesis using 0 Some res cb by simp
    qed
  qed
qed

lemma simple_stage_returns: "simple_stage json vars body \<noteq> None"
  unfolding simple_stage_def
  by (rule replace_all_returns) (simp add: simple_cb_def Let_def)

text \<open>The definitions a concrete run of the engine unfolds.\<close>

lemmas stage_defs = simple_stage_def simple_cb_def rx_exec_def rx_simple_def lits_def not_close_def
      get_prop_def trim_def is_space_def processConditionals_def processLoops_def
      processEqualityConditionals_def processSwitchStatements_def rx_if_def rx_each_def
      rx_switch_def rx_if_equals_def rx_block_def any_char_def not_quote_def itemContext_def
      warn_undefined_def quoted_def switch_cb_def rx_case_def

section \<open>Unresolved simple substitutions\<close>

text \<open>The simple stage on a body with no block directive: every reference is matched, the
  unresolved ones are given back as they are written, each with its warning.\<close>

lemma simple_stage_keeps:
  assumes "list_all plain_segment segs"
  shows "simple_stage json vars (render segs)
         = Some (concat (map (kept json vars) segs), concat (map (warned vars) segs))"
  using assms
proof (induction segs)
  case Nil
  then show ?case by (simp add: simple_stage_def render_def)
next
  case (Cons seg segs)
  have o: "starts_with_open rx_simple" by (rule starts_with_open_regexes)
  have IH: "replace_all rx_simple (simple_cb json vars) 0 (render segs)
            = Some (concat (map (kept json vars) segs), concat (map (warned vars) segs))"
    using Cons by (simp add: simple_stage_def)
  show ?case
  proof (cases seg)
    case (Text t)
    then have "CHR ''{'' \<notin> set t" using Cons.prems(1) by simp
    then show ?thesis
      using IH Text by (simp add: simple_stage_def render_def replace_all_prefix [OF o])
  next
    case (Ref n)
    then have nm: "n \<noteq> []" "CHR ''}'' \<notin> set n" using Cons.prems(1) by (simp_all add: brace_free_def)
    have m: "rx_exec rx_simple ((''{{'' @ n @ ''}}'') @ render segs) = Some ([n], render segs)"
      using rx_simple_reference [OF nm, of "render segs"] by simp
    have cb: "simple_cb json vars (''{{'' @ n @ ''}}'') [n]
              = Some (kept json vars (Ref n), warned vars (Ref n))"
      by (simp add: simple_cb_def Let_def unresolved_def)
    have "replace_all rx_simple (simple_cb json vars) 0 ((''{{'' @ n @ ''}}'') @ render segs)
          = Some (kept json vars (Ref n) @ concat (map (kept json vars) segs),
                  warned vars (Ref n) @ concat (map (warned vars) segs))"
      using cb IH by (subst replace_all_match [OF m]) simp_all
    then show ?thesis
      using Ref by (simp add: simple_stage_def render_def)
  qed
qed

text \<open>No block expression matches in what the simple stage leaves of such a body: a kept
  token does not begin with \<open>{{#\<close>, and nothing else holds an opening brace.\<close>

lemma block_stage_keeps:
  assumes r: "starts_with_directive r"
    and "list_all plain_segment segs" and "list_all (settled json vars) segs"
  shows "replace_all r cb 0 (concat (map (kept json vars) segs))
         = Some (concat (map (kept json vars) segs), [])"
  using assms(2,3)
proof (induction segs)
  case Nil
  then show ?case by simp
next
  case (Cons seg segs)
  have o: "starts_with_open r" using r by (rule starts_with_directive_open)
  let ?rest = "concat (map (kept json vars) segs)"
  have IH: "replace_all r cb 0 ?rest = Some (?rest, [])" using Cons by simp
  have plain: "CHR ''{'' \<notin> set u \<Longrightarrow> replace_all r cb 0 (u @ ?rest) = Some (u @ ?rest, [])" for u
    using IH by (simp add: replace_all_prefix [OF o])
  show ?case
  proof (cases seg)
    case (Text t)
    then show ?thesis using Cons.prems plain [of t] by simp
  next
    case (Ref n)
    show ?thesis
    proof (cases "unresolved vars n")
      case False
      then show ?thesis
        using Cons.prems Ref plain [of "formatValue json (get_prop vars (trim n))"] by simp
    next
      case True
      obtain c cs where n: "n = c # cs" using Cons.prems(1) Ref by (cases n) auto
      have c: "c \<noteq> CHR ''#''" "c \<noteq> CHR ''{''" "CHR ''{'' \<notin> set (c # cs @ ''}}'')"
        using Cons.prems(1) Ref n by (auto simp: brace_free_def)
      obtain r' where r': "r = Chr CHR ''{'' # Chr CHR ''{'' # Chr CHR ''#'' # r'"
        using r by (rule starts_with_directiveD)
      have e1: "rx_exec r (CHR ''{'' # CHR ''{'' # c # cs @ ''}}'' @ ?rest) = None"
        using c(1) by (simp add: r' rx_exec_def)
      have e2: "rx_exec r (CHR ''{'' # c # cs @ ''}}'' @ ?rest) = None"
        using c(2) by (simp add: r' rx_exec_def)
      have tail: "replace_all r cb 0 ((c # cs @ ''}}'') @ ?rest) = Some ((c # cs @ ''}}'') @ ?rest, [])"
        using c(3) by (rule plain)
      have "replace_all r cb 0 (''{{'' @ n @ ''}}'' @ ?rest) = Some (''{{'' @ n @ ''}}'' @ ?rest, [])"
        using e1 e2 tail by (simp add: n)
      then show ?thesis using Ref True by simp
    qed
  qed
qed

lemma kept_token_in_output:
  assumes "Ref n \<in> set segs" and "unresolved vars n"
  shows "str_includes (concat (map (kept json vars) segs)) (''{{'' @ n @ ''}}'')"
    and "warn_undefined (trim n) \<in> set (concat (map (warned vars) segs))"
proof -
  obtain xs ys where s: "segs = xs @ Ref n # ys"
    using assms(1) by (auto simp: in_set_conv_decomp)
  have "concat (map (kept json vars) segs)
        = concat (map (kept json vars) xs) @ (''{{'' @ n @ ''}}'') @ concat (map (kept json vars) ys)"
    using assms(2) by (simp add: s)
  then show "str_includes (concat (map (kept json vars) segs)) (''{{'' @ n @ ''}}'')"
    using str_includes_middle by metis
  show "warn_undefined (trim n) \<in> set (concat (map (warned vars) segs))"
    using assms(2) by (auto simp: s)
qed

text \<open>
  C8, as the claim has it, fails. A simple substitution inside a block is not preserved:
  in the body \<open>{{#if a}}{{name}}{{/if}}\<close> with an empty context the simple stage keeps the
  three tokens and warns about each, the name \<open>name\<close> among them, and the stage of the
  conditionals then takes the block away, the token \<open>{{name}}\<close> with it. The call returns
  the empty text.
\<close>

theorem undefined_placeholder_counterexample:
  "interpolateVariables (Suc 0) no_json [] ''{{#if a}}{{name}}{{/if}}''
     = Some ([], [warn_undefined ''#if a'', warn_undefined ''name'', warn_undefined ''/if''])
   \<and> get_prop [] (trim ''name'') = JUndefined
   \<and> \<not> str_includes [] ''{{name}}''"
  by (simp add: stage_defs Let_def)

text \<open>
  C8, as the code has it. In a body with no block directive (text without an opening brace
  and any number of simple references \<open>{{NAME}}\<close>, the names not empty, without braces and
  not beginning with \<open>#\<close>), with a context whose formatted values for the resolved
  references hold no opening brace, \<open>interpolateVariables\<close> returns at every depth bound
  above zero. Its output is the body with every resolved reference replaced by its value
  and every reference whose value is \<open>null\<close> or \<open>undefined\<close> left as it is written, and
  its warnings are one for each unresolved reference, in order. So every unresolved token
  stands in the output, and its warning is in the list.
\<close>

theorem unresolved_references_preserved:
  assumes "list_all plain_segment segs" and "list_all (settled json vars) segs"
  shows "interpolateVariables (Suc k) json vars (render segs)
           = Some (concat (map (kept json vars) segs), concat (map (warned vars) segs))
         \<and> (\<forall>n. Ref n \<in> set segs \<and> unresolved vars n \<longrightarrow>
               str_includes (concat (map (kept json vars) segs)) (''{{'' @ n @ ''}}'')
               \<and> warn_undefined (trim n) \<in> set (concat (map (warned vars) segs)))"
proof -
  let ?out = "concat (map (kept json vars) segs)"
  have s1: "simple_stage json vars (render segs) = Some (?out, concat (map (warned vars) segs))"
    using assms(1) by (rule simple_stage_keeps)
  have keep: "starts_with_directive r \<Longrightarrow> replace_all r cb 0 ?out = Some (?out, [])" for r cb
    by (rule block_stage_keeps [OF _ assms])
  have s2: "processConditionals self vars ?out = Some (?out, [])" for self
    unfolding processConditionals_def by (rule keep) (rule starts_with_directive_regexes)
  have s3: "processLoops self vars ?out = Some (?out, [])" for self
    unfolding processLoops_def by (rule keep) (rule starts_with_directive_regexes)
  have s4: "processEqualityConditionals self vars ?out = Some (?out, [])" for self
    unfolding processEqualityConditionals_def by (rule keep) (rule starts_with_directive_regexes)
  have s5: "processSwitchStatements self vars ?out = Some (?out, [])" for self
    unfolding processSwitchStatements_def by (rule keep) (rule starts_with_directive_regexes)
  have whole: "interpolateVariables (Suc k) json vars (render segs)
               = Some (?out, concat (map (warned vars) segs))"
    by (simp only: interpolateVariables.simps s1 s2 s3 s4 s5 option.case prod.case append_Nil2)
  show ?thesis
    using whole kept_token_in_output by blast
qed

theorem unresolved_references_preserved_witness:
  "list_all plain_segment [Text ''Hello '', Ref ''name'', Text '' and '', Ref ''friend'', Text ''!'']
   \<and> list_all (settled no_json [(''name'', JStr ''John'')])
        [Text ''Hello '', Ref ''name'', Text '' and '', Ref ''friend'', Text ''!'']
   \<and> unresolved [(''name'', JStr ''John'')] ''friend''
   \<and> interpolateVariables (Suc 0) no_json [(''name'', JStr ''John'')]
        ''Hello {{name}} and {{friend}}!''
       = Some (''Hello John and {{friend}}!'', [warn_undefined ''friend''])
   \<and> str_includes ''Hello John and {{friend}}!'' ''{{friend}}''"
  using unresolved_references_preserved
    [of "[Text ''Hello '', Ref ''name'', Text '' and '', Ref ''friend'', Text ''!'']" no_json
        "[(''name'', JStr ''John'')]" 0]
  by (simp add: brace_free_def unresolved_def get_prop_def trim_def is_space_def render_def)

section \<open>Invariants of the registry\<close>

lemma register_failure_unchanged:
  "register st t = Some (Inl e, st') \<Longrightarrow> st' = st"
  by (auto simp: register_def Let_def split: if_splits sum.splits Option.bind_splits)

text \<open>A successful cycle check has followed the chain of the parent to its end without
  meeting the new identifier.\<close>

lemma checkCircularLoop_avoiding:
  "checkCircularLoop ts x visited c = Inr () \<Longrightarrow> c \<noteq> [] \<Longrightarrow> resolves_avoiding ts x c"
proof (induction ts x visited c rule: checkCircularLoop.induct)
  case (1 ts x visited c)
  from "1.prems" obtain t where t: "c \<notin> set visited" "c \<noteq> x" "map_of ts c = Some t"
    and rec: "checkCircularLoop ts x (visited @ [c]) (or_else (extends t) []) = Inr ()"
    by (subst (asm) checkCircularLoop.simps) (auto split: if_splits option.splits)
  show ?case
  proof (cases "or_else (extends t) [] = []")
    case True
    then show ?thesis using t by (auto intro: resolves_avoiding.root)
  next
    case False
    then have "resolves_avoiding ts x (or_else (extends t) [])"
      using "1.IH" [OF "1.prems"(2) t(1) t(2) t(3) rec] by simp
    then show ?thesis using t False by (auto intro: resolves_avoiding.step)
  qed
qed

lemma map_of_set_prop_eq: "map_of (set_prop k v m) k' = (if k' = k then Some v else map_of m k')"
  by (induction m) auto

lemma map_of_map_delete: "map_of (map_delete k m) k' = (if k' = k then None else map_of m k')"
  by (induction m) (auto simp: map_delete_def)

lemma keys_set_prop: "set (map fst (set_prop k v m)) = insert k (set (map fst m))"
  by (induction m) auto

lemma distinct_set_prop: "distinct (map fst m) \<Longrightarrow> distinct (map fst (set_prop k v m))"
proof (induction m)
  case Nil
  then show ?case by simp
next
  case (Cons p m)
  then show ?case using keys_set_prop [of k v m] by auto
qed

lemma distinct_map_delete: "distinct (map fst m) \<Longrightarrow> distinct (map fst (map_delete k m))"
  by (simp add: map_delete_def distinct_map_filter)

lemma resolves_avoiding_set_prop:
  "resolves_avoiding ts x i \<Longrightarrow> resolves (set_prop x t ts) i"
proof (induction rule: resolves_avoiding.induct)
  case (root i u)
  then show ?case by (auto intro: resolves.root simp: map_of_set_prop_eq)
next
  case (step i u)
  then show ?case by (auto intro: resolves.step simp: map_of_set_prop_eq)
qed

lemma resolves_set_prop:
  "resolves ts i \<Longrightarrow> resolves (set_prop x t ts) x \<Longrightarrow> resolves (set_prop x t ts) i"
proof (induction rule: resolves.induct)
  case (root i u)
  then show ?case by (cases "i = x") (auto intro: resolves.root simp: map_of_set_prop_eq)
next
  case (step i u)
  then show ?case by (cases "i = x") (auto intro: resolves.step simp: map_of_set_prop_eq)
qed

lemma resolves_map_delete:
  assumes "resolves ts i" and "i \<noteq> x" and "distinct (map fst ts)"
    and "findDependentTemplates ts x = []"
  shows "resolves (map_delete x ts) i"
  using assms
proof (induction rule: resolves.induct)
  case (root i u)
  then show ?case by (auto intro: resolves.root simp: map_of_map_delete)
next
  case (step i u)
  have "(i, u) \<in> set ts" using step.hyps(1) by (rule map_of_SomeD)
  then have "extends u \<noteq> Defined x"
    using step.prems(3) by (auto simp: findDependentTemplates_def filter_empty_conv)
  then have "or_else (extends u) [] \<noteq> x"
    using step.hyps(2) by (auto simp: or_else_def split: optional.splits)
  then have "resolves (map_delete x ts) (or_else (extends u) [])"
    using step by simp
  then show ?case using step by (auto intro: resolves.step simp: map_of_map_delete)
qed


lemma set_prop_chains_end:
  assumes inv: "chains_end ts" and nonempty: "tid t \<noteq> []"
    and chk: "or_else (extends t) [] \<noteq> [] \<Longrightarrow>
              checkCircularLoop ts (tid t) [] (or_else (extends t) []) = Inr ()"
  shows "chains_end (set_prop (tid t) t ts)"
proof -
  let ?ts' = "set_prop (tid t) t ts"
  have self: "resolves ?ts' (tid t)"
  proof (cases "or_else (extends t) [] = []")
    case True
    then show ?thesis by (auto intro: resolves.root simp: map_of_set_prop_eq)
  next
    case False
    then have "resolves_avoiding ts (tid t) (or_else (extends t) [])"
      using chk by (intro checkCircularLoop_avoiding) auto
    then have "resolves ?ts' (or_else (extends t) [])"
      by (rule resolves_avoiding_set_prop)
    then show ?thesis using False by (auto intro: resolves.step simp: map_of_set_prop_eq)
  qed
  have "resolves ?ts' i" if "map_of ?ts' i = Some v" for i v
  proof (cases "i = tid t")
    case True
    then show ?thesis using self by simp
  next
    case False
    then have "map_of ts i = Some v" using that by (simp add: map_of_set_prop_eq)
    then have "resolves ts i" using inv by (auto simp: chains_end_def)
    then show ?thesis using self by (rule resolves_set_prop)
  qed
  moreover have "[] \<notin> set (map fst ?ts')"
    using inv nonempty keys_set_prop [of "tid t" t ts] by (auto simp: chains_end_def)
  ultimately show ?thesis
    using inv by (auto simp: chains_end_def distinct_set_prop)
qed

lemma map_delete_chains_end:
  assumes inv: "chains_end ts" and nodep: "findDependentTemplates ts x = []"
  shows "chains_end (map_delete x ts)"
proof -
  let ?ts' = "map_delete x ts"
  have "resolves ?ts' i" if "map_of ?ts' i = Some v" for i v
  proof -
    have ne: "i \<noteq> x" and "map_of ts i = Some v"
      using that by (auto simp: map_of_map_delete split: if_splits)
    then have "resolves ts i" using inv by (auto simp: chains_end_def)
    then show ?thesis using ne inv nodep by (intro resolves_map_delete) (auto simp: chains_end_def)
  qed
  moreover have "[] \<notin> set (map fst ?ts')"
    using inv by (auto simp: chains_end_def map_delete_def)
  ultimately show ?thesis
    using inv by (auto simp: chains_end_def distinct_map_delete)
qed

lemma register_chains_end:
  assumes inv: "chains_end (templates st)" and reg: "register st t = Some (Inr u, st')"
  shows "chains_end (templates st')"
proof -
  have ts': "templates st' = set_prop (tid t) t (templates st)"
    using reg by (auto simp: register_def Let_def split: if_splits sum.splits Option.bind_splits)
  have ne: "tid t \<noteq> []"
    using reg by (auto simp: register_def Let_def split: if_splits)
  have chk: "or_else (extends t) [] \<noteq> [] \<Longrightarrow>
             checkCircularLoop (templates st) (tid t) [] (or_else (extends t) []) = Inr ()"
    using reg
    by (auto simp: register_def Let_def checkCircularInheritance_def
        split: if_splits sum.splits Option.bind_splits)
  show ?thesis
    unfolding ts' using inv ne chk by (rule set_prop_chains_end)
qed

lemma remove_chains_end:
  assumes inv: "chains_end (templates st)" and rem: "remove st x = Some (Inr u, st')"
  shows "chains_end (templates st')"
proof -
  have ts': "templates st' = map_delete x (templates st)"
    using rem by (auto simp: remove_def Let_def split: if_splits Option.bind_splits)
  have nodep: "findDependentTemplates (templates st) x = []"
    using rem by (auto simp: remove_def Let_def split: if_splits Option.bind_splits)
  show ?thesis
    unfolding ts' using inv nodep by (rule map_delete_chains_end)
qed

lemma remove_failure_unchanged:
  "remove st i = Some (Inl e, st') \<Longrightarrow> st' = st"
  by (auto simp: remove_def Let_def split: if_splits Option.bind_splits)

lemma getResolved_templates_aux:
  assumes "getResolved st i = Some y"
  shows "templates (snd y) = templates st"
proof (rule getResolved.raw_induct[where P="\<lambda>st i y. templates (snd y) = templates st"])
  show "getResolved st i = Some y" by (rule assms)
next
  fix rec :: "registry \<Rightarrow> string \<Rightarrow> ((error + IPromptTemplate) \<times> registry) option"
    and st i y
  assume IH: "\<And>st i y. rec st i = Some y \<Longrightarrow> templates (snd y) = templates st"
    and step: "(case map_of (inheritanceCache st) i of
      None \<Rightarrow>
        case get st i of Inl e \<Rightarrow> Some (Inl e, st)
        | Inr template \<Rightarrow>
            if or_else (extends template) [] \<noteq> []
            then rec st (or_else (extends template) []) \<bind>
                 (\<lambda>(parentResult, st').
                     case parentResult of
                     Inl e \<Rightarrow>
                       Some (Inl (ResolveParentFailed (or_else (extends template) []) i e), st')
                     | Inr parent \<Rightarrow>
                         let merged = mergeTemplates parent template
                         in Some (Inr merged,
                                  st'\<lparr>inheritanceCache := set_prop i merged (inheritanceCache st')\<rparr>))
            else Some (Inr template,
                       st\<lparr>inheritanceCache := set_prop i template (inheritanceCache st)\<rparr>)
      | Some cached \<Rightarrow> Some (Inr cached, st)) =
     Some y"
  show "templates (snd y) = templates st"
    using step IH
    by (fastforce simp: Let_def split: option.splits sum.splits if_splits Option.bind_splits prod.splits)
qed

lemma getResolved_templates:
  "getResolved st i = Some (r, st') \<Longrightarrow> templates st' = templates st"
  using getResolved_templates_aux by fastforce

lemma reachable_chains_end: "reachable st \<Longrightarrow> chains_end (templates st)"
proof (induction rule: reachable.induct)
  case initial
  then show ?case by (simp add: chains_end_def empty_registry_def)
next
  case (registered st t r st')
  then show ?case
    by (cases r) (auto dest: register_failure_unchanged register_chains_end)
next
  case (removed st i r st')
  then show ?case
    by (cases r) (auto dest: remove_failure_unchanged remove_chains_end)
next
  case (resolved st i rt st')
  then show ?case by (auto dest: getResolved_templates)
qed

lemma getResolved_returns_on_chain:
  "resolves (templates st) i \<Longrightarrow> \<exists>r st'. getResolved st i = Some (r, st')"
proof (induction rule: resolves.induct)
  case (root i t)
  then show ?case
    by (subst getResolved.simps) (auto simp: get_def split: option.splits)
next
  case (step i t)
  then obtain r st' where "getResolved st (or_else (extends t) []) = Some (r, st')" by blast
  then show ?case
    using step.hyps
    by (subst getResolved.simps) (auto simp: get_def Let_def split: option.splits sum.splits)
qed

lemma getResolved_returns:
  assumes "reachable st"
  shows "\<exists>r st'. getResolved st i = Some (r, st')"
proof (cases "map_of (templates st) i")
  case None
  then show ?thesis
    by (subst getResolved.simps) (auto simp: get_def split: option.splits)
next
  case (Some t)
  then have "resolves (templates st) i"
    using reachable_chains_end [OF assms] by (auto simp: chains_end_def)
  then show ?thesis by (rule getResolved_returns_on_chain)
qed

lemma reachable_parent_stored:
  assumes "reachable st" and "(d, t) \<in> set (templates st)" and "extends t = Defined i" and "i \<noteq> []"
  shows "exists_template st i"
proof -
  have inv: "chains_end (templates st)" using assms(1) by (rule reachable_chains_end)
  then have "map_of (templates st) d = Some t"
    using assms(2) by (auto simp: chains_end_def)
  then have "resolves (templates st) d" using inv by (auto simp: chains_end_def)
  then show ?thesis
  proof (cases rule: resolves.cases)
    case (root u)
    then show ?thesis
      using \<open>map_of (templates st) d = Some t\<close> assms(3,4) by (auto simp: or_else_def)
  next
    case (step u)
    then have "resolves (templates st) i"
      using \<open>map_of (templates st) d = Some t\<close> assms(3) by (auto simp: or_else_def)
    then show ?thesis
      by (cases rule: resolves.cases) (auto simp: exists_template_def)
  qed
qed

text \<open>
  On a registry whose chains end, the relation between a template and its dependents has no
  cycle, so clearing the cache returns, and with it \<open>register\<close> and \<open>remove\<close>.
\<close>

lemma depends_iff: "(d, x) \<in> depends ts \<longleftrightarrow> (\<exists>t. (d, t) \<in> set ts \<and> extends t = Defined x)"
  by (force simp: depends_def findDependentTemplates_def)

lemma finite_depends: "finite (depends ts)"
proof -
  have "depends ts \<subseteq> (\<lambda>(d, t). (d, or_else (extends t) [])) ` set ts"
    by (auto simp: depends_iff or_else_def image_iff split: prod.splits) force
  then show ?thesis by (rule finite_subset) simp
qed

lemma depends_parent:
  assumes "distinct (map fst ts)" and "map_of ts a = Some t" and "(a, b) \<in> depends ts"
  shows "extends t = Defined b"
proof -
  obtain t' where "(a, t') \<in> set ts" "extends t' = Defined b"
    using assms(3) by (auto simp: depends_iff)
  then show ?thesis using assms(1,2) by auto
qed

lemma resolves_acyclic:
  assumes "resolves ts a" and "distinct (map fst ts)" and "[] \<notin> set (map fst ts)"
  shows "(a, a) \<notin> (depends ts)\<^sup>+"
  using assms
proof (induction rule: resolves.induct)
  case (root a t)
  show ?case
  proof
    assume "(a, a) \<in> (depends ts)\<^sup>+"
    then obtain z where z: "(a, z) \<in> depends ts" "(z, a) \<in> (depends ts)\<^sup>*"
      by (auto dest: tranclD)
    have "extends t = Defined z" by (rule depends_parent [OF root.prems(1) root.hyps(1) z(1)])
    then have "z = []" using root.hyps(2) by (simp add: or_else_def)
    have "(a, t) \<in> set ts" using root.hyps(1) by (rule map_of_SomeD)
    then have "a \<in> set (map fst ts)" by force
    then have "a \<noteq> []" using root.prems(2) by metis
    then have "(z, a) \<in> (depends ts)\<^sup>+" using z(2) \<open>z = []\<close> by (auto simp: rtrancl_eq_or_trancl)
    then obtain y where "(z, y) \<in> depends ts" by (auto dest: tranclD)
    then have "[] \<in> set (map fst ts)" using \<open>z = []\<close> by (force simp: depends_iff)
    then show False using root.prems(2) by simp
  qed
next
  case (step a t)
  show ?case
  proof
    assume "(a, a) \<in> (depends ts)\<^sup>+"
    then obtain z where z: "(a, z) \<in> depends ts" "(z, a) \<in> (depends ts)\<^sup>*"
      by (auto dest: tranclD)
    have "extends t = Defined z" by (rule depends_parent [OF step.prems(1) step.hyps(1) z(1)])
    then have p: "or_else (extends t) [] = z" by (simp add: or_else_def)
    have "(z, z) \<in> (depends ts)\<^sup>+" using z by (metis rtrancl_into_trancl1)
    then show False using step p by simp
  qed
qed


lemma depends_stored:
  "(d, x) \<in> depends ts \<Longrightarrow> \<exists>t. map_of ts d = Some t"
proof -
  assume "(d, x) \<in> depends ts"
  then obtain t where "(d, t) \<in> set ts" by (auto simp: depends_iff)
  then have "d \<in> fst ` set ts" by force
  then have "map_of ts d \<noteq> None" by (simp add: map_of_eq_None_iff)
  then show ?thesis by auto
qed

lemma wf_depends:
  assumes "chains_end ts"
  shows "wf (depends ts)"
proof (rule finite_acyclic_wf [OF finite_depends])
  show "acyclic (depends ts)"
  proof (rule acyclicI, rule allI, rule notI)
    fix a assume c: "(a, a) \<in> (depends ts)\<^sup>+"
    then obtain z where "(a, z) \<in> depends ts" by (auto dest: tranclD)
    then obtain t where "map_of ts a = Some t" by (auto dest: depends_stored)
    then have "resolves ts a" using assms by (auto simp: chains_end_def)
    then show False using c resolves_acyclic assms by (auto simp: chains_end_def)
  qed
qed

lemma clearInheritanceCaches_list:
  assumes "\<forall>x \<in> set ids. \<forall>cache. clearInheritanceCaches ts (findDependentTemplates ts x) cache \<noteq> None"
  shows "clearInheritanceCaches ts ids cache \<noteq> None"
  using assms
proof (induction ids arbitrary: cache)
  case Nil
  then show ?case by (subst clearInheritanceCaches.simps) simp
next
  case (Cons x ids)
  obtain c1 where c1: "clearInheritanceCaches ts (findDependentTemplates ts x) (map_delete x cache) = Some c1"
    using Cons.prems by fastforce
  have "clearInheritanceCaches ts ids c1 \<noteq> None"
    using Cons by simp
  then show ?case
    using c1 by (subst clearInheritanceCaches.simps) simp
qed

lemma clearInheritanceCaches_dependents:
  assumes "wf (depends ts)"
  shows "clearInheritanceCaches ts (findDependentTemplates ts x) cache \<noteq> None"
  using assms
proof (induction x arbitrary: cache rule: wf_induct_rule)
  case (less x)
  show ?case
  proof (rule clearInheritanceCaches_list, intro ballI allI)
    fix d c assume "d \<in> set (findDependentTemplates ts x)"
    then have "(d, x) \<in> depends ts" by (simp add: depends_def)
    then show "clearInheritanceCaches ts (findDependentTemplates ts d) c \<noteq> None"
      using less by blast
  qed
qed

lemma clearInheritanceCache_returns:
  assumes "wf (depends ts)"
  shows "\<exists>c. clearInheritanceCache ts x cache = Some c"
proof -
  have "clearInheritanceCaches ts [x] cache \<noteq> None"
    using clearInheritanceCaches_dependents [OF assms] by (intro clearInheritanceCaches_list) simp
  then show ?thesis by (auto simp: clearInheritanceCache_def)
qed

lemma register_returns:
  assumes "chains_end (templates st)"
  shows "\<exists>r st'. register st t = Some (r, st')"
proof (cases "tid t = [] \<or> name t = [] \<or> content t = []")
  case True
  then show ?thesis by (auto simp: register_def)
next
  case False
  show ?thesis
  proof (cases "if or_else (extends t) [] \<noteq> []
                then checkCircularInheritance (templates st) (tid t) (or_else (extends t) [])
                else Inr ()")
    case (Inl e)
    then show ?thesis using False by (simp add: register_def)
  next
    case (Inr u)
    then have "chains_end (set_prop (tid t) t (templates st))"
      using assms False
      by (intro set_prop_chains_end) (auto simp: checkCircularInheritance_def split: if_splits)
    then obtain c where
      "clearInheritanceCache (set_prop (tid t) t (templates st)) (tid t) (inheritanceCache st) = Some c"
      using clearInheritanceCache_returns wf_depends by blast
    then show ?thesis using False Inr by (simp add: register_def Let_def)
  qed
qed

lemma remove_returns:
  assumes "chains_end (templates st)"
  shows "\<exists>r st'. remove st i = Some (r, st')"
proof (cases "map_of (templates st) i = None \<or> findDependentTemplates (templates st) i \<noteq> []")
  case True
  then show ?thesis by (auto simp: remove_def Let_def)
next
  case False
  then have "chains_end (map_delete i (templates st))"
    using assms by (intro map_delete_chains_end) auto
  then obtain c where
    "clearInheritanceCache (map_delete i (templates st)) i (inheritanceCache st) = Some c"
    using clearInheritanceCache_returns wf_depends by blast
  then show ?thesis using False by (simp add: remove_def Let_def)
qed

text \<open>Every operation returns on every registry built by the operations.\<close>

lemma reachable_operations_return:
  assumes "reachable st"
  shows "\<exists>r st'. register st t = Some (r, st')"
    and "\<exists>r st'. remove st i = Some (r, st')"
    and "\<exists>r st'. getResolved st i = Some (r, st')"
  using assms reachable_chains_end register_returns remove_returns getResolved_returns by blast+

section \<open>The registry: search, removal, resolution, registration\<close>

lemma search_loop_empty_query:
  "search_loop json [] matches ts =
     (if list_all (\<lambda>template. serialise_entries (or_else (metadata template) []) \<noteq> None) ts
      then Inr (matches @ ts) else Inl SerializeFailed)"
  by (induction ts arbitrary: matches)
     (auto simp: searchableText_def stringify_def str_includes_empty split: option.splits)

text \<open>
  C10, as the code has it. In every registry state in which the metadata of every stored
  template can be serialised, \<open>search\<close> with the empty query succeeds and returns all stored
  templates, the same list in the same order as \<open>list\<close> returns. In any other state the
  search fails with the error that \<open>JSON.stringify\<close> threw, while \<open>list\<close> succeeds.
\<close>

theorem search_empty_query_lists_all:
  "search json st [] =
     (if metadata_serialisable st then Inr (map snd (templates st)) else Inl SerializeFailed)
   \<and> list_templates st = Inr (map snd (templates st))"
  by (simp add: search_def list_templates_def toLowerCase_def search_loop_empty_query
      metadata_serialisable_def)

theorem search_empty_query_lists_all_witness:
  "metadata_serialisable demo_registry
   \<and> search no_json demo_registry [] = Inr [demo_parent, demo_child]
   \<and> list_templates demo_registry = Inr [demo_parent, demo_child]"
  using search_empty_query_lists_all [of no_json demo_registry]
  by (simp add: metadata_serialisable_def demo_registry_def demo_parent_def demo_child_def
      or_else_def)

text \<open>
  C10, as the claim has it, fails: the registry accepts a template whose metadata holds a
  \<open>BigInt\<close>; on that registry the search with the empty query fails, and \<open>list\<close> returns the
  template.
\<close>

theorem search_empty_query_counterexample:
  "register empty_registry demo_big = Some (Inr (), demo_big_registry)
   \<and> search no_json demo_big_registry [] = Inl SerializeFailed
   \<and> list_templates demo_big_registry = Inr [demo_big]"
  by (simp add: register_def empty_registry_def demo_big_def demo_parent_def or_else_def Let_def
      clearInheritanceCache_def clearInheritanceCaches.simps findDependentTemplates_def map_delete_def
      demo_big_registry_def parsed_section_def search_def searchableText_def stringify_def
      toLowerCase_def list_templates_def)

lemma map_of_in_set: "(d, t) \<in> set ts \<Longrightarrow> map_of ts d \<noteq> None"
  by (induction ts) auto

lemma dependents_stored:
  "d \<in> set (findDependentTemplates ts i) \<Longrightarrow> map_of ts d \<noteq> None"
  by (auto simp: findDependentTemplates_def dest: map_of_in_set)

text \<open>The registry of the example is built by registering the parent and then the child.\<close>

lemma demo_register:
  "register empty_registry demo_parent
     = Some (Inr (), \<lparr>templates = [(''base'', demo_parent)], inheritanceCache = []\<rparr>)"
  "register \<lparr>templates = [(''base'', demo_parent)], inheritanceCache = []\<rparr> demo_child
     = Some (Inr (), demo_registry)"
  by (simp_all add: register_def empty_registry_def demo_parent_def demo_child_def or_else_def Let_def
      clearInheritanceCache_def clearInheritanceCaches.simps findDependentTemplates_def map_delete_def
      checkCircularInheritance_def demo_registry_def parsed_section_def)

lemma demo_reachable: "reachable demo_registry"
  using reachable.initial demo_register by (blast intro: reachable.registered)

text \<open>
  C5. In every registry state in which some stored template has \<open>extends\<close> equal to \<open>i\<close>,
  where \<open>i\<close> is stored (as it is in every registry built by the operations, when \<open>i\<close> is not
  the empty string), \<open>remove i\<close> fails with the error that lists the dependents (all of
  them, the given one among them), and the registry is the same afterwards: the target and
  every dependent still exist.
\<close>

theorem remove_refused_while_extended:
  assumes target: "exists_template st i \<or> (reachable st \<and> i \<noteq> [])"
    and dep: "(d, t) \<in> set (templates st)" "extends t = Defined i"
  shows "remove st i = Some (Inl (HasDependents i (findDependentTemplates (templates st) i)), st)
         \<and> d \<in> set (findDependentTemplates (templates st) i)
         \<and> exists_template st i
         \<and> (\<forall>x \<in> set (findDependentTemplates (templates st) i). exists_template st x)"
proof -
  have stored: "exists_template st i"
    using target dep reachable_parent_stored by blast
  have mem: "d \<in> set (findDependentTemplates (templates st) i)"
    using dep by (force simp: findDependentTemplates_def)
  then have "length (findDependentTemplates (templates st) i) > 0"
    by (cases "findDependentTemplates (templates st) i") auto
  then have "remove st i = Some (Inl (HasDependents i (findDependentTemplates (templates st) i)), st)"
    using stored by (simp add: remove_def exists_template_def Let_def)
  then show ?thesis
    using mem stored by (auto simp: exists_template_def dest: dependents_stored)
qed

theorem remove_refused_while_extended_witness:
  "reachable demo_registry \<and> ''base'' \<noteq> []
   \<and> (''child'', demo_child) \<in> set (templates demo_registry)
   \<and> extends demo_child = Defined ''base''
   \<and> remove demo_registry ''base'' = Some (Inl (HasDependents ''base'' [''child'']), demo_registry)
   \<and> exists_template demo_registry ''base''
   \<and> exists_template demo_registry ''child''"
proof -
  have a: "exists_template demo_registry ''base'' \<or> (reachable demo_registry \<and> ''base'' \<noteq> [])"
    using demo_reachable by simp
  have b: "(''child'', demo_child) \<in> set (templates demo_registry)"
    by (simp add: demo_registry_def)
  have c: "extends demo_child = Defined ''base''"
    by (simp add: demo_child_def)
  have d: "findDependentTemplates (templates demo_registry) ''base'' = [''child'']"
    by (simp add: findDependentTemplates_def demo_registry_def demo_child_def demo_parent_def)
  show ?thesis
    using remove_refused_while_extended [OF a b c] demo_reachable b c d by simp
qed

text \<open>A failed resolution leaves the registry as it was; a successful one has cached its
  result.\<close>

lemma getResolved_failure_unchanged_aux:
  assumes "getResolved st i = Some y"
  shows "\<forall>e st'. y = (Inl e, st') \<longrightarrow> st' = st"
proof (rule getResolved.raw_induct[where P="\<lambda>st i y. \<forall>e st'. y = (Inl e, st') \<longrightarrow> st' = st"])
  show "getResolved st i = Some y" by (rule assms)
next
  fix rec :: "registry \<Rightarrow> string \<Rightarrow> ((error + IPromptTemplate) \<times> registry) option"
    and st i y
  assume IH: "\<And>st i y. rec st i = Some y \<Longrightarrow> \<forall>e st'. y = (Inl e, st') \<longrightarrow> st' = st"
    and step: "(case map_of (inheritanceCache st) i of
      None \<Rightarrow>
        case get st i of Inl e \<Rightarrow> Some (Inl e, st)
        | Inr template \<Rightarrow>
            if or_else (extends template) [] \<noteq> []
            then rec st (or_else (extends template) []) \<bind>
                 (\<lambda>(parentResult, st').
                     case parentResult of
                     Inl e \<Rightarrow>
                       Some (Inl (ResolveParentFailed (or_else (extends template) []) i e), st')
                     | Inr parent \<Rightarrow>
                         let merged = mergeTemplates parent template
                         in Some (Inr merged,
                                  st'\<lparr>inheritanceCache := set_prop i merged (inheritanceCache st')\<rparr>))
            else Some (Inr template,
                       st\<lparr>inheritanceCache := set_prop i template (inheritanceCache st)\<rparr>)
      | Some cached \<Rightarrow> Some (Inr cached, st)) =
     Some y"
  show "\<forall>e st'. y = (Inl e, st') \<longrightarrow> st' = st"
    using step IH
    by (auto simp: Let_def split: option.splits sum.splits if_splits Option.bind_splits prod.splits)
qed

lemma getResolved_failure_unchanged:
  "getResolved st i = Some (Inl e, st') \<Longrightarrow> st' = st"
  using getResolved_failure_unchanged_aux by blast

lemma map_of_set_prop: "map_of (set_prop k v m) k = Some v"
  by (induction m) auto

lemma getResolved_success_cached:
  "getResolved st i = Some (Inr t, st') \<Longrightarrow> map_of (inheritanceCache st') i = Some t"
  apply (subst (asm) getResolved.simps)
  apply (auto simp: Let_def map_of_set_prop split: option.splits sum.splits if_splits Option.bind_splits prod.splits)
  done

lemma getResolved_again:
  assumes "getResolved st i = Some (r, st')"
  shows "getResolved st' i = Some (r, st')"
proof (cases r)
  case (Inl e)
  then have "st' = st" using assms getResolved_failure_unchanged by blast
  then show ?thesis using assms by simp
next
  case (Inr t)
  then have "map_of (inheritanceCache st') i = Some t"
    using assms getResolved_success_cached by blast
  then show ?thesis using Inr by (subst getResolved.simps) simp
qed

text \<open>
  C6. When \<open>getResolved i\<close> returns, calling it again on the registry it left returns the
  same result, failure or template, and leaves the registry as it is. On every registry built
  by the operations the first call does return, so both calls return and agree.
\<close>

theorem getResolved_idempotent:
  "(getResolved st i = Some (r, st') \<longrightarrow> getResolved st' i = Some (r, st'))
   \<and> (reachable st \<longrightarrow>
        (\<exists>r1 st1. getResolved st i = Some (r1, st1) \<and> getResolved st1 i = Some (r1, st1)))"
  using getResolved_again getResolved_returns by blast

lemma demo_getResolved:
  "getResolved demo_registry ''child'' = Some (Inr (mergeTemplates demo_parent demo_child), demo_resolved)"
  apply (subst getResolved.simps)
  apply (subst getResolved.simps)
  apply (simp add: demo_registry_def demo_resolved_def get_def or_else_def demo_child_def demo_parent_def Let_def)
  done

theorem getResolved_idempotent_witness:
  "reachable demo_registry
   \<and> getResolved demo_registry ''child'' = Some (Inr (mergeTemplates demo_parent demo_child), demo_resolved)
   \<and> getResolved demo_resolved ''child'' = Some (Inr (mergeTemplates demo_parent demo_child), demo_resolved)"
  using getResolved_idempotent
    [of demo_registry "''child''" "Inr (mergeTemplates demo_parent demo_child)" demo_resolved]
    demo_getResolved demo_reachable
  by simp

lemma register_parent_missing:
  assumes "tid a \<noteq> []" "name a \<noteq> []" "content a \<noteq> []"
    and "extends a = Defined p" "p \<noteq> []" "p \<noteq> tid a" "map_of (templates st) p = None"
  shows "register st a = Some (Inl (ParentNotFound p), st)"
  using assms
  by (simp add: register_def or_else_def checkCircularInheritance_def)

text \<open>
  C4, as the code has it. From the empty registry, registering \<open>a\<close> that extends \<open>b\<close> fails
  because \<open>b\<close> is not stored, and registering \<open>b\<close> that extends \<open>a\<close> then fails the same way,
  with the parent-not-found error; and a register call that fails leaves the registry as it
  was.
\<close>

theorem register_mutual_extends_from_empty:
  assumes "tid a \<noteq> []" "name a \<noteq> []" "content a \<noteq> []"
    and "tid b \<noteq> []" "name b \<noteq> []" "content b \<noteq> []"
    and "extends a = Defined (tid b)" "extends b = Defined (tid a)" "tid a \<noteq> tid b"
  shows "register empty_registry a = Some (Inl (ParentNotFound (tid b)), empty_registry)
         \<and> register empty_registry b = Some (Inl (ParentNotFound (tid a)), empty_registry)
         \<and> (\<forall>st t e st'. register st t = Some (Inl e, st') \<longrightarrow> st' = st)"
proof -
  have e: "map_of (templates empty_registry) x = None" for x
    by (simp add: empty_registry_def)
  have 1: "register empty_registry a = Some (Inl (ParentNotFound (tid b)), empty_registry)"
    using assms e by (intro register_parent_missing) auto
  have 2: "register empty_registry b = Some (Inl (ParentNotFound (tid a)), empty_registry)"
    using assms e by (intro register_parent_missing) auto
  show ?thesis using 1 2 register_failure_unchanged by blast
qed

theorem register_mutual_extends_from_empty_witness:
  "tid demo_a \<noteq> [] \<and> name demo_a \<noteq> [] \<and> content demo_a \<noteq> []
   \<and> tid demo_b \<noteq> [] \<and> name demo_b \<noteq> [] \<and> content demo_b \<noteq> []
   \<and> extends demo_a = Defined (tid demo_b) \<and> extends demo_b = Defined (tid demo_a)
   \<and> tid demo_a \<noteq> tid demo_b
   \<and> register empty_registry demo_a = Some (Inl (ParentNotFound (tid demo_b)), empty_registry)
   \<and> register empty_registry demo_b = Some (Inl (ParentNotFound (tid demo_a)), empty_registry)"
proof -
  have h: "tid demo_a \<noteq> []" "name demo_a \<noteq> []" "content demo_a \<noteq> []"
    "tid demo_b \<noteq> []" "name demo_b \<noteq> []" "content demo_b \<noteq> []"
    "extends demo_a = Defined (tid demo_b)" "extends demo_b = Defined (tid demo_a)"
    "tid demo_a \<noteq> tid demo_b"
    by (simp_all add: demo_a_def demo_b_def)
  show ?thesis
    using register_mutual_extends_from_empty [OF h] h by simp
qed

text \<open>
  C4, as the claim has it, fails: the second call does not report a circular inheritance.
  Its error is the parent-not-found one, as is the first call's.
\<close>

theorem register_mutual_extends_counterexample:
  "register empty_registry demo_a = Some (Inl (ParentNotFound ''circular-2''), empty_registry)
   \<and> register empty_registry demo_b = Some (Inl (ParentNotFound ''circular-1''), empty_registry)
   \<and> error_message (ParentNotFound ''circular-1'') = ''Parent template not found: circular-1''"
  by (simp add: register_def or_else_def checkCircularInheritance_def demo_a_def demo_b_def
      demo_child_def empty_registry_def)

text \<open>Where the cycle check does fire: with parent and child stored, registering the parent
  again as extending the child fails, and the registry stays as it is.\<close>

lemma demo_cycle_refused:
  "register demo_registry (demo_parent\<lparr>extends := Defined ''child''\<rparr>)
     = Some (Inl (InheritFromItself ''base''), demo_registry)"
  by (simp add: register_def or_else_def checkCircularInheritance_def demo_registry_def
      demo_parent_def demo_child_def)

section \<open>The inheritance merge\<close>

lemma mergeTemplates_sections:
  "contextLoading (mergeTemplates p c) = spread (contextLoading p) (contextLoading c)"
  "taskDefinition (mergeTemplates p c) = spread (taskDefinition p) (taskDefinition c)"
  "thinkingLevel (mergeTemplates p c) = spread (thinkingLevel p) (thinkingLevel c)"
  by (auto simp: mergeTemplates_def Let_def spread_def split: optional.splits)

text \<open>
  C2. The merge is meant to keep the parent's \<open>contextLoading\<close>, \<open>taskDefinition\<close> and
  \<open>thinkingLevel\<close> where the child defines none. For a child that comes from the parser it
  does not: the child owns each of the three properties, with the value \<open>undefined\<close> where
  its document has no such section, and the spread copies that over the parent's value. So
  does the child resolved from the registry that holds both.
\<close>

theorem mergeTemplates_parsed_child_drops_parent_sections:
  "contextLoading demo_parent = Defined demo_context_loading
   \<and> contextLoading demo_child = Undefined
   \<and> contextLoading (mergeTemplates demo_parent demo_child) = Undefined
   \<and> thinkingLevel demo_parent = Defined demo_thinking_level
   \<and> thinkingLevel demo_child = Undefined
   \<and> thinkingLevel (mergeTemplates demo_parent demo_child) = Undefined
   \<and> getResolved demo_registry ''child''
       = Some (Inr (mergeTemplates demo_parent demo_child), demo_resolved)"
  using demo_getResolved
  by (simp add: mergeTemplates_sections spread_def demo_parent_def demo_child_def parsed_section_def)

section \<open>Context validation\<close>

lemma validateVariableType_eq:
  "validateVariableType n x t =
     (if actual_type x = t then None else Some (type_mismatch n t (actual_type x)))"
  by (cases x) (auto simp: validateVariableType_def)

lemma check_variables_mismatch:
  assumes "v \<in> set vs"
    and "get_prop ctx (vname v) \<noteq> JUndefined" "get_prop ctx (vname v) \<noteq> JNull"
    and "actual_type (get_prop ctx (vname v)) \<noteq> vtype v"
  shows "type_mismatch (vname v) (vtype v) (actual_type (get_prop ctx (vname v)))
         \<in> set (check_variables ctx vs)"
  using assms
  by (induction vs) (auto simp: Let_def validateVariableType_eq)

text \<open>Every reported error comes from a declared variable: a required one that is missing, or
  a present one of another type.\<close>

lemma check_variables_sound:
  assumes "e \<in> set (check_variables ctx vs)"
  shows "\<exists>v \<in> set vs.
           (required v \<and> (get_prop ctx (vname v) = JUndefined \<or> get_prop ctx (vname v) = JNull)
              \<and> e = missing_variable (vname v))
         \<or> (get_prop ctx (vname v) \<noteq> JUndefined \<and> get_prop ctx (vname v) \<noteq> JNull
              \<and> actual_type (get_prop ctx (vname v)) \<noteq> vtype v
              \<and> e = type_mismatch (vname v) (vtype v) (actual_type (get_prop ctx (vname v))))"
  using assms
  by (induction vs) (auto simp: Let_def validateVariableType_eq split: if_splits)

text \<open>
  C3, as the code has it. For every declared variable whose context value is present (neither
  \<open>undefined\<close> nor \<open>null\<close>) and whose structural type (\<open>array\<close> for a list, else its
  \<open>typeof\<close>) is not the declared kind, the result holds the error naming the variable, the
  expected kind and the actual kind, and is not valid. A value passes exactly when its
  structural type is the declared kind: a mapping passes for the kind \<open>object\<close>, a list does
  not; a list passes for the kind \<open>array\<close> only.
\<close>

theorem validateContext_reports_type_mismatch:
  assumes "variables template = Defined vs" and "v \<in> set vs"
    and "get_prop ctx (vname v) \<noteq> JUndefined" "get_prop ctx (vname v) \<noteq> JNull"
    and "actual_type (get_prop ctx (vname v)) \<noteq> vtype v"
  shows "type_mismatch (vname v) (vtype v) (actual_type (get_prop ctx (vname v)))
           \<in> set (errors (validateContext template ctx))
         \<and> \<not> valid (validateContext template ctx)
         \<and> message (type_mismatch n t a)
             = ''Variable '' @ quoted n @ '' expected type '' @ quoted t @ '' but got '' @ quoted a
         \<and> validateVariableType n x t
             = (if actual_type x = t then None else Some (type_mismatch n t (actual_type x)))
         \<and> validateVariableType n (JObj ps) ''object'' = None
         \<and> validateVariableType n (JArr xs) ''object'' = Some (type_mismatch n ''object'' ''array'')
         \<and> validateVariableType n (JArr xs) ''array'' = None"
proof -
  have mem: "type_mismatch (vname v) (vtype v) (actual_type (get_prop ctx (vname v)))
             \<in> set (check_variables ctx vs)"
    using assms(2-) by (rule check_variables_mismatch)
  then have ne: "check_variables ctx vs \<noteq> []" by auto
  show ?thesis
    using mem ne assms(1)
    by (simp add: validateContext_def Let_def validateVariableType_eq type_mismatch_def)
qed

theorem validateContext_reports_type_mismatch_witness:
  "variables demo_age_template = Defined [demo_age]
   \<and> demo_age \<in> set [demo_age]
   \<and> get_prop [(''age'', JStr ''not a number'')] (vname demo_age) = JStr ''not a number''
   \<and> actual_type (JStr ''not a number'') \<noteq> vtype demo_age
   \<and> type_mismatch ''age'' ''number'' ''string''
        \<in> set (errors (validateContext demo_age_template [(''age'', JStr ''not a number'')]))
   \<and> \<not> valid (validateContext demo_age_template [(''age'', JStr ''not a number'')])"
  using validateContext_reports_type_mismatch
    [of demo_age_template "[demo_age]" demo_age "[(''age'', JStr ''not a number'')]"]
  by (simp add: demo_age_def demo_age_template_def get_prop_def)

text \<open>
  C3, as the claim has it, fails: a list is not accepted for the kind \<open>object\<close>. The context
  value is the list \<open>['a']\<close>, the declared kind is \<open>object\<close>, and validation reports the
  mismatch with the actual kind \<open>array\<close>.
\<close>

theorem validateContext_list_for_object_counterexample:
  "validateContext demo_config_template [(''config'', JArr [JStr ''a''])]
     = \<lparr>valid = False, errors = [type_mismatch ''config'' ''object'' ''array''], warnings = []\<rparr>
   \<and> validateContext demo_config_template [(''config'', JObj [(''k'', JStr ''a'')])]
     = \<lparr>valid = True, errors = [], warnings = []\<rparr>"
  by (simp add: validateContext_def demo_config_template_def demo_config_def get_prop_def
      validateVariableType_def Let_def)

section \<open>Switch on a falsy value\<close>














lemma demo_switch_interpolate:
  "interpolateVariables (Suc 0) no_json [(''n'', JNum 0)]
     (''Level: '' @ demo_switch_body @ ''!'')
   = Some (''Level: !'',
       [warn_undefined ''#switch n'', warn_undefined (''#case '' @ [CHR 0x22] @ ''0'' @ [CHR 0x22]),
        warn_undefined ''/case'', warn_undefined ''/switch''])"
  by (simp add: demo_switch_body_def demo_switch_inner_def stage_defs Let_def)

section \<open>Bodies with only simple references\<close>

lemma simple_stage_fills:
  assumes "list_all simple_segment segs" and "list_all (provided json vars) segs"
  shows "simple_stage json vars (render segs) = Some (concat (map (filled json vars) segs), [])"
  using assms
proof (induction segs)
  case Nil
  then show ?case by (simp add: simple_stage_def render_def)
next
  case (Cons seg segs)
  have o: "starts_with_open rx_simple" by (rule starts_with_open_regexes)
  have IH: "replace_all rx_simple (simple_cb json vars) 0 (render segs)
            = Some (concat (map (filled json vars) segs), [])"
    using Cons by (simp add: simple_stage_def)
  show ?case
  proof (cases seg)
    case (Text t)
    then have "CHR ''{'' \<notin> set t" using Cons.prems(1) by (simp add: brace_free_def)
    then show ?thesis
      using IH Text by (simp add: simple_stage_def render_def replace_all_prefix [OF o])
  next
    case (Ref n)
    then have nm: "n \<noteq> []" "CHR ''}'' \<notin> set n" using Cons.prems(1) by simp_all
    have m: "rx_exec rx_simple ((''{{'' @ n @ ''}}'') @ render segs) = Some ([n], render segs)"
      using rx_simple_reference [OF nm, of "render segs"] by simp
    have cb: "simple_cb json vars (''{{'' @ n @ ''}}'') [n]
              = Some (formatValue json (get_prop vars (trim n)), [])"
      using Cons.prems(2) Ref by (simp add: simple_cb_def Let_def)
    have "replace_all rx_simple (simple_cb json vars) 0 ((''{{'' @ n @ ''}}'') @ render segs)
          = Some (formatValue json (get_prop vars (trim n)) @ concat (map (filled json vars) segs), [])"
      using cb IH by (subst replace_all_match [OF m]) simp_all
    then show ?thesis
      using Ref by (simp add: simple_stage_def render_def)
  qed
qed

lemma filled_brace_free:
  assumes "list_all simple_segment segs" and "list_all (provided json vars) segs"
  shows "brace_free (concat (map (filled json vars) segs))"
  using assms
proof (induction segs)
  case Nil
  then show ?case by (simp add: brace_free_def)
next
  case (Cons seg segs)
  then show ?case by (cases seg) (auto simp: brace_free_def)
qed

lemma str_includes_subset: "str_includes s q \<Longrightarrow> set q \<subseteq> set s"
proof (induction s)
  case Nil
  then show ?case by simp
next
  case (Cons c cs)
  then show ?case
    using set_take_subset [of "length q" "c # cs"] by auto
qed

text \<open>
  C7, as the code has it. For a body made of brace-free text and simple references
  \<open>{{name}}\<close>, and a context that has for every reference a value, not \<open>null\<close>, whose
  formatted text holds no brace, \<open>interpolateVariables\<close> returns the body with every
  reference replaced by its formatted value and logs nothing; the output holds neither
  \<open>{{\<close> nor \<open>}}\<close>.
\<close>

theorem simple_references_leave_no_braces:
  assumes "list_all simple_segment segs" and "list_all (provided json vars) segs"
  shows "interpolateVariables (Suc k) json vars (render segs)
           = Some (concat (map (filled json vars) segs), [])
         \<and> \<not> str_includes (concat (map (filled json vars) segs)) ''{{''
         \<and> \<not> str_includes (concat (map (filled json vars) segs)) ''}}''"
proof -
  let ?out = "concat (map (filled json vars) segs)"
  have bf: "brace_free ?out" using assms by (rule filled_brace_free)
  then have no: "CHR ''{'' \<notin> set ?out" by (simp add: brace_free_def)
  have s1: "simple_stage json vars (render segs) = Some (?out, [])"
    using assms by (rule simple_stage_fills)
  have s2: "processConditionals self vars ?out = Some (?out, [])" for self
    unfolding processConditionals_def by (rule replace_all_no_open [OF starts_with_open_regexes(2) no])
  have s3: "processLoops self vars ?out = Some (?out, [])" for self
    unfolding processLoops_def by (rule replace_all_no_open [OF starts_with_open_regexes(3) no])
  have s4: "processEqualityConditionals self vars ?out = Some (?out, [])" for self
    unfolding processEqualityConditionals_def by (rule replace_all_no_open [OF starts_with_open_regexes(5) no])
  have s5: "processSwitchStatements self vars ?out = Some (?out, [])" for self
    unfolding processSwitchStatements_def by (rule replace_all_no_open [OF starts_with_open_regexes(4) no])
  have r: "interpolateVariables (Suc k) json vars (render segs) = Some (?out, [])"
    by (simp only: interpolateVariables.simps s1 s2 s3 s4 s5 option.case prod.case append_Nil2)
  have a: "\<not> str_includes ?out ''{{''"
    using bf str_includes_subset [of ?out "''{{''"] by (auto simp: brace_free_def)
  have b: "\<not> str_includes ?out ''}}''"
    using bf str_includes_subset [of ?out "''}}''"] by (auto simp: brace_free_def)
  show ?thesis using r a b by simp
qed


theorem simple_references_leave_no_braces_witness:
  "list_all simple_segment [Text ''Hello '', Ref ''name'', Text '', you are '', Ref ''age'']
   \<and> list_all (provided no_json [(''name'', JStr ''John''), (''age'', JNum 30)])
        [Text ''Hello '', Ref ''name'', Text '', you are '', Ref ''age'']
   \<and> interpolateVariables (Suc 0) no_json [(''name'', JStr ''John''), (''age'', JNum 30)]
        ''Hello {{name}}, you are {{age}}''
       = Some (''Hello John, you are 30'', [])"
  using simple_references_leave_no_braces
    [of "[Text ''Hello '', Ref ''name'', Text '', you are '', Ref ''age'']" no_json
        "[(''name'', JStr ''John''), (''age'', JNum 30)]" 0]
  by (simp add: brace_free_def get_prop_def trim_def is_space_def string_of_int_def render_def)

text \<open>
  C7, as the claim has it, fails: a substituted value is not scanned again, so braces that
  come with a value stay in the output. The body is \<open>{{x}}\<close> and the context gives \<open>x\<close> the
  text \<open>{{y}}\<close>.
\<close>

theorem simple_references_counterexample:
  "interpolateVariables (Suc 0) no_json [(''x'', JStr ''{{y}}'')] ''{{x}}'' = Some (''{{y}}'', [])
   \<and> str_includes ''{{y}}'' ''{{'' \<and> str_includes ''{{y}}'' ''}}''"
  by (simp add: simple_stage_def simple_cb_def rx_exec_def rx_simple_def lits_def not_close_def
      get_prop_def trim_def is_space_def processConditionals_def processLoops_def
      processEqualityConditionals_def processSwitchStatements_def rx_if_def rx_each_def
      rx_switch_def rx_if_equals_def rx_block_def)

section \<open>The order of the stages\<close>

text \<open>
  C1, as the code has it. \<open>interpolateVariables\<close> runs the simple substitution first, on the
  whole text, then the conditionals, the loops, the equality conditionals and the switch
  statements, each on the whole text the stage before it returned; the warnings come in that
  order.
\<close>

theorem interpolateVariables_stage_order:
  "interpolateVariables (Suc n) json vars body =
     Option.bind (simple_stage json vars body) (\<lambda>(s1, w1).
     Option.bind (processConditionals (interpolateVariables n json) vars s1) (\<lambda>(s2, w2).
     Option.bind (processLoops (interpolateVariables n json) vars s2) (\<lambda>(s3, w3).
     Option.bind (processEqualityConditionals (interpolateVariables n json) vars s3) (\<lambda>(s4, w4).
     Option.bind (processSwitchStatements (interpolateVariables n json) vars s4) (\<lambda>(s5, w5).
     Some (s5, w1 @ w2 @ w3 @ w4 @ w5))))))"
  by (simp split: option.splits)

text \<open>
  C1, as the claim has it, fails: the simple substitution is not the last stage but the first.
  With an outer value for \<open>this\<close>, the code fills \<open>{{this}}\<close> before the loop runs and the
  loop repeats that value; in the claimed order the loop would bind \<open>this\<close> to each item.
\<close>

theorem stage_order_counterexample:
  "interpolateVariables 2 no_json demo_loop_vars ''{{#each items}}{{this}}{{/each}}''
     = Some (''XX'', [warn_undefined ''#each items'', warn_undefined ''/each''])
   \<and> interpolate_claimed_order 2 no_json demo_loop_vars ''{{#each items}}{{this}}{{/each}}''
     = Some (''ab'', [])"
  by (simp add: numeral_2_eq_2 demo_loop_vars_def stage_defs Let_def)


end
